theory Spec2Isabelle
  imports Main "HOL-Library.AList"
begin

section \<open>The Colab launcher \<^verbatim>\<open>cloud-deploy/ollama/colab.py\<close>\<close>

text \<open>
  The script is straight-line glue code around external calls. Every external call is
  an event of a trace, recorded with what it was given and what it answered; the answers
  come from a \<open>world\<close>, the only input besides the two configuration literals. Events of
  the main flow and events of the launcher thread are kept in two traces, since only the
  order inside each flow is fixed by the code; the orders of the two together are the
  interleavings defined further down.
\<close>

subsection \<open>Exceptions, dictionaries and the store\<close>

text \<open>
  Two classes of exception matter to the handlers of the script: \<open>KeyboardInterrupt\<close>,
  which derives from \<open>BaseException\<close> only, and everything that derives from
  \<open>Exception\<close>, carried with the text \<open>str(e)\<close>.
\<close>

datatype py_exc = KeyboardInterrupt | Exception string

fun isinstance_Exception :: "py_exc \<Rightarrow> bool" where
  "isinstance_Exception KeyboardInterrupt = False"
| "isinstance_Exception (Exception msg) = True"

fun isinstance_KeyboardInterrupt :: "py_exc \<Rightarrow> bool" where
  "isinstance_KeyboardInterrupt KeyboardInterrupt = True"
| "isinstance_KeyboardInterrupt (Exception msg) = False"

fun str_exc :: "py_exc \<Rightarrow> string" where
  "str_exc KeyboardInterrupt = []"
| "str_exc (Exception msg) = msg"

text \<open>
  A Python dict keeps insertion order: an association list, where \<open>d[k] = v\<close> replaces
  the value in place when the key is present and appends the pair otherwise.
\<close>

type_synonym dict = "(string \<times> string) list"

text \<open>
  Dict objects live in a store, addressed by position, so that \<open>copy()\<close> and item
  assignment act on objects and not on values. \<open>os.environ\<close> is the object at address 0.
\<close>

type_synonym store = "dict list"

definition environ_addr :: nat where
  "environ_addr = 0"

definition dict_copy :: "store \<Rightarrow> nat \<Rightarrow> nat \<times> store" where
  "dict_copy h a = (length h, h @ [h ! a])"

definition dict_setitem :: "store \<Rightarrow> nat \<Rightarrow> string \<Rightarrow> string \<Rightarrow> store" where
  "dict_setitem h a k v = h[a := AList.update k v (h ! a)]"

subsection \<open>Configuration, world and events\<close>

record config =
  NGROK_AUTH_TOKEN :: string
  MODELS_TO_PULL :: "string list"

text \<open>The model list the script ships with. The token literal stays a parameter.\<close>

definition shipped_models :: "string list" where
  "shipped_models = [''gpt-oss:20b'', ''qwen2.5:14b'']"

text \<open>
  What the outside answers. A call that returns nothing answers \<open>None\<close> when it returns
  and \<open>Some e\<close> when it raises \<open>e\<close>; \<open>subprocess.run\<close> answers the exit status of the
  child, or raises (binary missing, interrupt); \<open>ngrok.connect\<close> answers the public URL
  of the endpoint the provider allocates for that call, or raises. The i-th call of a
  repeated operation has its own answer.
\<close>

record world =
  environ :: dict
  popen_result :: "py_exc option"
  warmup_result :: "py_exc option"
  run_result :: "nat \<Rightarrow> py_exc + int"
  connect_result :: "py_exc + string"
  idle_sleep :: "nat \<Rightarrow> py_exc option"
  kill_result :: "py_exc option"

datatype event =
    SetAuthToken string
  | ThreadStart
  | Print string
  | Popen "string list" dict "py_exc option"
  | Sleep nat "py_exc option"
  | Run "string list" dict "py_exc + int"
  | Connect nat "py_exc + string"
  | Kill "py_exc option"

record state =
  heap :: store
  my_env :: nat
  trace :: "event list"
  thread_trace :: "event list"

record result =
  final :: state
  uncaught :: "py_exc option"

subsection \<open>Text of the messages\<close>

text \<open>Strings are the UTF-8 bytes written to standard output.\<close>

function str_nat :: "nat \<Rightarrow> string" where
  "str_nat n = (if n < 10 then [''0123456789'' ! n]
                else str_nat (n div 10) @ [''0123456789'' ! (n mod 10)])"
  by pat_completeness auto
termination
  by (relation "measure (\<lambda>n. n)") auto

declare str_nat.simps [simp del]

fun join :: "string \<Rightarrow> string list \<Rightarrow> string" where
  "join sep [] = []"
| "join sep [x] = x"
| "join sep (x # y # ys) = x @ sep @ join sep (y # ys)"

definition msg_starting :: string where
  "msg_starting = ''Ollama server ba'' @ [CHR 0xC5, CHR 0x9F] @ ''lat'' @ [CHR 0xC4, CHR 0xB1]
     @ ''l'' @ [CHR 0xC4, CHR 0xB1] @ ''yor...''"

definition msg_total :: "nat \<Rightarrow> string" where
  "msg_total n = ''Toplam '' @ str_nat n @ '' model indirilecek. Bu biraz s''
     @ [CHR 0xC3, CHR 0xBC] @ ''rebilir...''"

definition msg_downloading :: "string \<Rightarrow> string" where
  "msg_downloading model = [CHR 0xE2, CHR 0xAC, CHR 0x87, CHR 0xEF, CHR 0xB8, CHR 0x8F]
     @ '' '' @ [CHR 0xC4, CHR 0xB0] @ ''ndiriliyor: '' @ model @ '' ...''"

definition msg_ready :: "string \<Rightarrow> string" where
  "msg_ready model = [CHR 0xE2, CHR 0x9C, CHR 0x85] @ '' '' @ model @ '' haz''
     @ [CHR 0xC4, CHR 0xB1] @ ''r!''"

definition msg_bar :: string where
  "msg_bar = replicate 50 CHR ''=''"

definition msg_banner :: string where
  "msg_banner = [CHR 0x0A] @ msg_bar"

definition msg_header :: string where
  "msg_header = [CHR 0xF0, CHR 0x9F, CHR 0x94, CHR 0xA5] @ '' T'' @ [CHR 0xC3, CHR 0x9C]
     @ ''M MODELLER HAZIR! API Adresi:''"

definition msg_url :: "string \<Rightarrow> string" where
  "msg_url public_url = [CHR 0x0A, CHR 0xF0, CHR 0x9F, CHR 0x91, CHR 0x89] @ '' '' @ public_url
     @ '' '' @ [CHR 0xF0, CHR 0x9F, CHR 0x91, CHR 0x88, CHR 0x0A]"

definition msg_models :: "string list \<Rightarrow> string" where
  "msg_models ms = ''Kullan'' @ [CHR 0xC4, CHR 0xB1] @ ''labilir Modeller: '' @ join '', '' ms"

definition msg_error :: "py_exc \<Rightarrow> string" where
  "msg_error e = ''Hata:'' @ '' '' @ str_exc e"

subsection \<open>The script, stage by stage\<close>

text \<open>Section 3 of the script: \<open>my_env = os.environ.copy()\<close> and the two item assignments.\<close>

definition build_env :: "store \<Rightarrow> nat \<times> store" where
  "build_env h =
     (let (a, h1) = dict_copy h environ_addr;
          h2 = dict_setitem h1 a ''OLLAMA_ORIGINS'' ''*'';
          h3 = dict_setitem h2 a ''OLLAMA_HOST'' ''0.0.0.0''
      in (a, h3))"

text \<open>
  Section 4: the body of the launcher thread. \<open>Popen\<close> does not wait for the child; when
  it raises, the exception ends the thread and never reaches the main flow.
\<close>

definition start_ollama_server :: "world \<Rightarrow> dict \<Rightarrow> event list" where
  "start_ollama_server w env =
     [Print msg_starting, Popen [''ollama'', ''serve''] env (popen_result w)]"

definition pull_cmd :: "string \<Rightarrow> string list" where
  "pull_cmd model = [''ollama'', ''pull'', model]"

text \<open>
  Section 5: the download loop, from the i-th call of \<open>subprocess.run\<close> on. The exit
  status is never read; an exception leaves the loop and the script.
\<close>

fun pull_models :: "world \<Rightarrow> dict \<Rightarrow> nat \<Rightarrow> string list \<Rightarrow> event list \<times> py_exc option" where
  "pull_models w env i [] = ([], None)"
| "pull_models w env i (model # rest) =
     (case run_result w i of
        Inl e \<Rightarrow> ([Print (msg_downloading model), Run (pull_cmd model) env (Inl e)], Some e)
      | Inr rc \<Rightarrow>
          (let (tr, r) = pull_models w env (Suc i) rest
           in ([Print (msg_downloading model), Run (pull_cmd model) env (Inr rc),
                Print (msg_ready model)] @ tr, r)))"

text \<open>Section 6: \<open>try: ngrok.connect(11434) ... except Exception as e: print("Hata:", e)\<close>.\<close>

definition open_tunnel :: "config \<Rightarrow> world \<Rightarrow> event list \<times> py_exc option" where
  "open_tunnel c w =
     (case connect_result w of
        Inr public_url \<Rightarrow>
          ([Connect 11434 (Inr public_url), Print msg_banner, Print msg_header,
            Print (msg_url public_url), Print (msg_models (MODELS_TO_PULL c)),
            Print msg_bar], None)
      | Inl e \<Rightarrow>
          (if isinstance_Exception e
           then ([Connect 11434 (Inl e), Print (msg_error e)], None)
           else ([Connect 11434 (Inl e)], Some e)))"

text \<open>
  Everything before the idle loop. The first component is the exception that ended the
  script there, if any.
\<close>

definition main_flow :: "config \<Rightarrow> world \<Rightarrow> py_exc option \<times> state" where
  "main_flow c w =
     (let (a, h) = build_env [environ w];
          st0 = \<lparr>heap = h, my_env = a,
                 trace = [SetAuthToken (NGROK_AUTH_TOKEN c), ThreadStart,
                          Sleep 10 (warmup_result w)],
                 thread_trace = start_ollama_server w (h ! a)\<rparr>
      in case warmup_result w of
           Some e \<Rightarrow> (Some e, st0)
         | None \<Rightarrow>
            (let (tr1, r1) = pull_models w (h ! a) 0 (MODELS_TO_PULL c);
                 st1 = st0\<lparr>trace := trace st0
                          @ [Print (msg_total (length (MODELS_TO_PULL c)))] @ tr1\<rparr>
             in case r1 of
                  Some e \<Rightarrow> (Some e, st1)
                | None \<Rightarrow>
                   (let (tr2, r2) = open_tunnel c w
                    in (r2, st1\<lparr>trace := trace st1 @ tr2\<rparr>))))"

text \<open>
  The idle loop \<open>while True: time.sleep(1)\<close>, from its k-th sleep on. It can only be left
  by an exception, which it returns with the trace; \<open>None\<close> is a loop that never ends.
\<close>

partial_function (option) idle_loop :: "world \<Rightarrow> nat \<Rightarrow> event list \<Rightarrow> (event list \<times> py_exc) option"
  where
  "idle_loop w k tr =
     (case idle_sleep w k of
        None \<Rightarrow> idle_loop w (Suc k) (tr @ [Sleep 1 None])
      | Some e \<Rightarrow> Some (tr @ [Sleep 1 (Some e)], e))"

text \<open>The loop inside its handler: \<open>except KeyboardInterrupt: ngrok.kill()\<close>.\<close>

declare idle_loop.simps [code]

definition idle_wait :: "world \<Rightarrow> state \<Rightarrow> result option" where
  "idle_wait w st =
     (case idle_loop w 0 (trace st) of
        None \<Rightarrow> None
      | Some (tr, e) \<Rightarrow>
          (if isinstance_KeyboardInterrupt e
           then Some \<lparr>final = st\<lparr>trace := tr @ [Kill (kill_result w)]\<rparr>,
                      uncaught = kill_result w\<rparr>
           else Some \<lparr>final = st\<lparr>trace := tr\<rparr>, uncaught = Some e\<rparr>))"

definition script :: "config \<Rightarrow> world \<Rightarrow> result option" where
  "script c w =
     (case main_flow c w of
        (Some e, st) \<Rightarrow> Some \<lparr>final = st, uncaught = Some e\<rparr>
      | (None, st) \<Rightarrow> idle_wait w st)"

subsection \<open>The two flows in one order\<close>

text \<open>
  \<open>ollama_thread.start()\<close> hands \<open>start_ollama_server\<close> to a second thread and the script
  never joins it. A call is seen twice, when it is entered and when it returns or raises.
  The orders in which a run can be observed are those that keep the order of the main
  flow and the order of the thread, with every step of the thread after the call of
  \<open>start()\<close> has been entered.
\<close>

datatype step = Enter event | Leave event

fun steps :: "event list \<Rightarrow> step list" where
  "steps [] = []"
| "steps (e # es) = Enter e # Leave e # steps es"

fun interleaved :: "'a list \<Rightarrow> 'a list \<Rightarrow> 'a list \<Rightarrow> bool" where
  "interleaved [] xs ys = (xs = [] \<and> ys = [])"
| "interleaved (z # zs) xs ys =
     ((case xs of [] \<Rightarrow> False | x # xs' \<Rightarrow> x = z \<and> interleaved zs xs' ys)
    \<or> (case ys of [] \<Rightarrow> False | y # ys' \<Rightarrow> y = z \<and> interleaved zs xs ys'))"

fun global_order :: "event list \<Rightarrow> event list \<Rightarrow> step list \<Rightarrow> bool" where
  "global_order [] th zs = (zs = [])"
| "global_order (e # es) th zs =
     (if e = ThreadStart
      then (case zs of
              [] \<Rightarrow> False
            | z # zs' \<Rightarrow> z = Enter ThreadStart
                \<and> interleaved zs' (Leave ThreadStart # steps es) (steps th))
      else (case zs of
              z1 # z2 # zs' \<Rightarrow> z1 = Enter e \<and> z2 = Leave e \<and> global_order es th zs'
            | _ \<Rightarrow> False))"

subsection \<open>Observations on traces\<close>

text \<open>The commands given to \<open>subprocess.run\<close>, in the order of the calls.\<close>

fun run_cmds :: "event list \<Rightarrow> string list list" where
  "run_cmds [] = []"
| "run_cmds (Run cmd env r # es) = cmd # run_cmds es"
| "run_cmds (e # es) = run_cmds es"

text \<open>The calls of \<open>ngrok.connect\<close> and of \<open>ngrok.kill\<close>, in the order of the calls.\<close>

fun connects :: "event list \<Rightarrow> (nat \<times> (py_exc + string)) list" where
  "connects [] = []"
| "connects (Connect port r # es) = (port, r) # connects es"
| "connects (e # es) = connects es"

fun kills :: "event list \<Rightarrow> py_exc option list" where
  "kills [] = []"
| "kills (Kill r # es) = r # kills es"
| "kills (e # es) = kills es"

text \<open>The environment an event hands to a child process, if it starts one.\<close>

fun child_env :: "event \<Rightarrow> dict option" where
  "child_env (Popen cmd env r) = Some env"
| "child_env (Run cmd env r) = Some env"
| "child_env e = None"

subsection \<open>Sample runs\<close>

text \<open>
  The configuration of the scenario in the specification, and a world in which the parent
  environment already binds the host, the first download fails with status 1, the tunnel
  opens, and the interrupt arrives during the third idle sleep. The other worlds differ
  from it in one answer each.
\<close>

definition cfg_ab :: config where
  "cfg_ab = \<lparr>NGROK_AUTH_TOKEN = ''T'', MODELS_TO_PULL = [''a'', ''b'']\<rparr>"

definition world_ok :: world where
  "world_ok = \<lparr>environ = [(''PATH'', ''/usr/bin''), (''OLLAMA_HOST'', ''127.0.0.1'')],
      popen_result = None,
      warmup_result = None,
      run_result = (\<lambda>i. if i = 0 then Inr 1 else Inr 0),
      connect_result = Inr ''https://x.ngrok.app'',
      idle_sleep = (\<lambda>k. if k = 2 then Some KeyboardInterrupt else None),
      kill_result = None\<rparr>"

definition world_tunnel_error :: world where
  "world_tunnel_error = world_ok\<lparr>connect_result := Inl (Exception ''auth failed'')\<rparr>"

definition world_tunnel_interrupt :: world where
  "world_tunnel_interrupt = world_ok\<lparr>connect_result := Inl KeyboardInterrupt\<rparr>"

definition world_warmup_interrupt :: world where
  "world_warmup_interrupt = world_ok\<lparr>warmup_result := Some KeyboardInterrupt\<rparr>"

definition world_pull_interrupt :: world where
  "world_pull_interrupt =
     world_ok\<lparr>run_result := (\<lambda>i. if i = 0 then Inr 1 else Inl KeyboardInterrupt)\<rparr>"

text \<open>
  An order of the sample run in which the main flow is already asleep when the launcher
  thread prints and starts \<open>ollama serve\<close>.
\<close>

definition late_serve_schedule :: "step list" where
  "late_serve_schedule =
     [Enter (SetAuthToken ''T''), Leave (SetAuthToken ''T''),
      Enter ThreadStart, Leave ThreadStart, Enter (Sleep 10 None)]
     @ steps (thread_trace (snd (main_flow cfg_ab world_ok)))
     @ Leave (Sleep 10 None) # steps (drop 3 (trace (snd (main_flow cfg_ab world_ok))))"

section \<open>Properties of the stages\<close>

subsection \<open>The store and the download loop\<close>

lemma build_env_single:
  "build_env [e] = (Suc 0, [e, AList.update ''OLLAMA_HOST'' ''0.0.0.0'' (AList.update ''OLLAMA_ORIGINS'' ''*'' e)])"
  by (simp add: build_env_def dict_copy_def dict_setitem_def environ_addr_def)

lemma run_cmds_append: "run_cmds (xs @ ys) = run_cmds xs @ run_cmds ys"
  by (induction xs rule: run_cmds.induct) simp_all

lemma connects_append: "connects (xs @ ys) = connects xs @ connects ys"
  by (induction xs rule: connects.induct) simp_all

lemma kills_append: "kills (xs @ ys) = kills xs @ kills ys"
  by (induction xs rule: kills.induct) simp_all

lemma pull_models_connects: "connects (fst (pull_models w env i ms)) = []"
  by (induction ms arbitrary: i) (simp_all add: split_beta split: sum.splits)

lemma pull_models_kills: "kills (fst (pull_models w env i ms)) = []"
  by (induction ms arbitrary: i) (simp_all add: split_beta split: sum.splits)

lemma pull_models_child_env:
  "e \<in> set (fst (pull_models w env i ms)) \<Longrightarrow> child_env e = Some env' \<Longrightarrow> env' = env"
  by (induction ms arbitrary: i) (auto simp: split_beta split: sum.splits)

lemma pull_models_all_exit:
  "\<forall>j<length ms. \<exists>rc. run_result w (i + j) = Inr rc \<Longrightarrow> snd (pull_models w env i ms) = None"
proof (induction ms arbitrary: i)
  case Nil
  then show ?case by simp
next
  case (Cons m ms)
  from Cons.prems obtain rc where rc: "run_result w i = Inr rc"
    by (metis add.right_neutral length_greater_0_conv list.distinct(1))
  have "\<forall>j<length ms. \<exists>rc. run_result w (Suc i + j) = Inr rc"
    using Cons.prems by (metis Suc_less_eq add_Suc_right add_Suc length_Cons)
  from Cons.IH [OF this] show ?case
    using rc by (simp add: split_beta)
qed

lemma pull_models_completed:
  "snd (pull_models w env i ms) = None \<Longrightarrow>
   run_cmds (fst (pull_models w env i ms)) = map pull_cmd ms"
  by (induction ms arbitrary: i) (simp_all add: split_beta split: sum.splits)

lemma pull_models_raises:
  "d < length ms \<Longrightarrow> run_result w (i + d) = Inl e \<Longrightarrow>
   \<forall>j<d. \<exists>rc. run_result w (i + j) = Inr rc \<Longrightarrow>
   snd (pull_models w env i ms) = Some e"
proof (induction ms arbitrary: i d)
  case Nil
  then show ?case by simp
next
  case (Cons m ms)
  show ?case
  proof (cases d)
    case 0
    with Cons.prems show ?thesis by simp
  next
    case (Suc d')
    with Cons.prems obtain rc where rc: "run_result w i = Inr rc"
      by (metis add.right_neutral zero_less_Suc)
    have "\<forall>j<d'. \<exists>rc. run_result w (Suc i + j) = Inr rc"
      using Cons.prems(3) Suc by (metis Suc_less_eq add_Suc_right add_Suc)
    moreover have "d' < length ms" "run_result w (Suc i + d') = Inl e"
      using Cons.prems Suc by simp_all
    ultimately have "snd (pull_models w env (Suc i) ms) = Some e"
      using Cons.IH by blast
    then show ?thesis using rc by (simp add: split_beta)
  qed
qed

lemma pull_models_ready:
  "fst (pull_models w env i ms) = xs @ Run cmd env' (Inr rc) # ys \<Longrightarrow>
   \<exists>model zs. cmd = pull_cmd model \<and> ys = Print (msg_ready model) # zs"
proof (induction ms arbitrary: i xs)
  case Nil
  then show ?case by simp
next
  case (Cons m ms)
  show ?case
  proof (cases "run_result w i")
    case (Inl e)
    with Cons.prems show ?thesis
      by (auto simp: Cons_eq_append_conv)
  next
    case (Inr rc0)
    with Cons.prems Cons.IH show ?thesis
      by (auto simp: Cons_eq_append_conv split_beta)
  qed
qed

subsection \<open>The idle loop\<close>

lemma idle_loop_interrupted:
  "idle_sleep w (k + d) = Some e \<Longrightarrow> \<forall>j<d. idle_sleep w (k + j) = None \<Longrightarrow>
   idle_loop w k tr = Some (tr @ replicate d (Sleep 1 None) @ [Sleep 1 (Some e)], e)"
proof (induction d arbitrary: k tr)
  case 0
  then show ?case by (subst idle_loop.simps) simp
next
  case (Suc d)
  have here: "idle_sleep w k = None"
    using Suc.prems(2) by (metis add.right_neutral zero_less_Suc)
  have "idle_sleep w (Suc k + d) = Some e" "\<forall>j<d. idle_sleep w (Suc k + j) = None"
    using Suc.prems by (simp_all, metis Suc_less_eq add_Suc_right)
  from Suc.IH [OF this, of "tr @ [Sleep 1 None]"] show ?case
    using here by (subst idle_loop.simps) (simp add: replicate_app_Cons_same)
qed

lemma idle_loop_returns:
  assumes "idle_loop w k tr = Some y"
  shows "\<exists>d. idle_sleep w (k + d) = Some (snd y) \<and> (\<forall>j<d. idle_sleep w (k + j) = None) \<and>
       fst y = tr @ replicate d (Sleep 1 None) @ [Sleep 1 (Some (snd y))]"
proof (rule idle_loop.raw_induct [where P = "\<lambda>w k tr y. \<exists>d. idle_sleep w (k + d) = Some (snd y) \<and>
       (\<forall>j<d. idle_sleep w (k + j) = None) \<and>
       fst y = tr @ replicate d (Sleep 1 None) @ [Sleep 1 (Some (snd y))]", OF _ assms])
  fix loop w k tr y
  assume IH: "\<And>w k tr y. loop w k tr = Some y \<Longrightarrow>
      \<exists>d. idle_sleep w (k + d) = Some (snd y) \<and> (\<forall>j<d. idle_sleep w (k + j) = None) \<and>
       fst y = tr @ replicate d (Sleep 1 None) @ [Sleep 1 (Some (snd y))]"
    and body: "(case idle_sleep w k of None \<Rightarrow> loop w (Suc k) (tr @ [Sleep 1 None])
        | Some e \<Rightarrow> Some (tr @ [Sleep 1 (Some e)], e)) = Some y"
  show "\<exists>d. idle_sleep w (k + d) = Some (snd y) \<and> (\<forall>j<d. idle_sleep w (k + j) = None) \<and>
       fst y = tr @ replicate d (Sleep 1 None) @ [Sleep 1 (Some (snd y))]"
  proof (cases "idle_sleep w k")
    case None
    with body have "loop w (Suc k) (tr @ [Sleep 1 None]) = Some y" by simp
    from IH [OF this] obtain d where d: "idle_sleep w (Suc k + d) = Some (snd y)"
        "\<forall>j<d. idle_sleep w (Suc k + j) = None"
        "fst y = (tr @ [Sleep 1 None]) @ replicate d (Sleep 1 None) @ [Sleep 1 (Some (snd y))]"
      by blast
    have "\<forall>j<Suc d. idle_sleep w (k + j) = None"
    proof (intro allI impI)
      fix j assume "j < Suc d"
      then show "idle_sleep w (k + j) = None"
        using None d(2) by (cases j) simp_all
    qed
    with d show ?thesis
      by (intro exI [of _ "Suc d"]) (simp add: replicate_app_Cons_same)
  next
    case (Some e')
    with body show ?thesis by (intro exI [of _ 0]) auto
  qed
qed

subsection \<open>The main flow\<close>

lemma main_flow_trace:
  "trace (snd (main_flow c w)) =
     [SetAuthToken (NGROK_AUTH_TOKEN c), ThreadStart, Sleep 10 (warmup_result w)] @
     (case warmup_result w of
        Some e \<Rightarrow> []
      | None \<Rightarrow>
          Print (msg_total (length (MODELS_TO_PULL c))) #
          fst (pull_models w (AList.update ''OLLAMA_HOST'' ''0.0.0.0''
                 (AList.update ''OLLAMA_ORIGINS'' ''*'' (environ w))) 0 (MODELS_TO_PULL c)) @
          (case snd (pull_models w (AList.update ''OLLAMA_HOST'' ''0.0.0.0''
                 (AList.update ''OLLAMA_ORIGINS'' ''*'' (environ w))) 0 (MODELS_TO_PULL c)) of
             Some e \<Rightarrow> []
           | None \<Rightarrow> fst (open_tunnel c w)))"
  by (simp add: main_flow_def build_env_single split_beta Let_def split: option.splits)

lemma main_flow_exception:
  "fst (main_flow c w) =
     (case warmup_result w of
        Some e \<Rightarrow> Some e
      | None \<Rightarrow>
          (case snd (pull_models w (AList.update ''OLLAMA_HOST'' ''0.0.0.0''
                 (AList.update ''OLLAMA_ORIGINS'' ''*'' (environ w))) 0 (MODELS_TO_PULL c)) of
             Some e \<Rightarrow> Some e
           | None \<Rightarrow> snd (open_tunnel c w)))"
  by (simp add: main_flow_def build_env_single split_beta Let_def split: option.splits)

lemma main_flow_store:
  "heap (snd (main_flow c w)) =
     [environ w, AList.update ''OLLAMA_HOST'' ''0.0.0.0''
                   (AList.update ''OLLAMA_ORIGINS'' ''*'' (environ w))]"
  "my_env (snd (main_flow c w)) = Suc 0"
  "thread_trace (snd (main_flow c w)) =
     start_ollama_server w (AList.update ''OLLAMA_HOST'' ''0.0.0.0''
                   (AList.update ''OLLAMA_ORIGINS'' ''*'' (environ w)))"
  by (simp_all add: main_flow_def build_env_single split_beta Let_def split: option.splits)

lemma open_tunnel_observed:
  "run_cmds (fst (open_tunnel c w)) = []"
  "kills (fst (open_tunnel c w)) = []"
  "connects (fst (open_tunnel c w)) = [(11434, connect_result w)]"
  by (simp_all add: open_tunnel_def split: sum.splits)

lemma main_flow_kills: "kills (trace (snd (main_flow c w))) = []"
  by (simp add: main_flow_trace kills_append pull_models_kills open_tunnel_observed
      split: option.splits)

lemma split_after_prefix:
  "A @ B = xs @ e # ys \<Longrightarrow> e \<notin> set A \<Longrightarrow> \<exists>xs'. xs = A @ xs' \<and> B = xs' @ e # ys"
proof (induction A arbitrary: xs)
  case Nil
  then show ?case by simp
next
  case (Cons a A)
  then show ?case by (cases xs) auto
qed

lemma split_before_suffix:
  "B @ C = xs @ e # ys \<Longrightarrow> e \<notin> set C \<Longrightarrow> \<exists>ys'. B = xs @ e # ys' \<and> ys = ys' @ C"
proof (induction xs arbitrary: B)
  case Nil
  then show ?case by (cases B) auto
next
  case (Cons x xs)
  then show ?case by (cases B) auto
qed

lemma open_tunnel_no_run: "Run cmd env r \<notin> set (fst (open_tunnel c w))"
  by (simp add: open_tunnel_def split: sum.splits)

lemma sample_run_trace:
  "trace (snd (main_flow cfg_ab world_ok)) =
     [SetAuthToken ''T'', ThreadStart, Sleep 10 None, Print (msg_total 2),
      Print (msg_downloading ''a''),
      Run (pull_cmd ''a'')
        [(''PATH'', ''/usr/bin''), (''OLLAMA_HOST'', ''0.0.0.0''), (''OLLAMA_ORIGINS'', ''*'')]
        (Inr 1),
      Print (msg_ready ''a''),
      Print (msg_downloading ''b''),
      Run (pull_cmd ''b'')
        [(''PATH'', ''/usr/bin''), (''OLLAMA_HOST'', ''0.0.0.0''), (''OLLAMA_ORIGINS'', ''*'')]
        (Inr 0),
      Print (msg_ready ''b''),
      Connect 11434 (Inr ''https://x.ngrok.app''),
      Print msg_banner, Print msg_header, Print (msg_url ''https://x.ngrok.app''),
      Print (msg_models [''a'', ''b'']), Print msg_bar]"
  by (simp add: main_flow_trace world_ok_def cfg_ab_def open_tunnel_def numeral_2_eq_2)

subsection \<open>The copied environment\<close>

lemma overrides_written:
  "map_of (AList.update ''OLLAMA_HOST'' ''0.0.0.0'' (AList.update ''OLLAMA_ORIGINS'' ''*'' e))
     = (map_of e)(''OLLAMA_ORIGINS'' \<mapsto> ''*'', ''OLLAMA_HOST'' \<mapsto> ''0.0.0.0'')"
  by (simp add: update_conv')

lemma overrides_keep_keys:
  "fst ` set (AList.update ''OLLAMA_HOST'' ''0.0.0.0'' (AList.update ''OLLAMA_ORIGINS'' ''*'' e))
     = {''OLLAMA_HOST'', ''OLLAMA_ORIGINS''} \<union> fst ` set e"
  by (simp add: dom_update insert_commute)

lemma main_flow_child_env:
  assumes "e \<in> set (trace (snd (main_flow c w))) \<union> set (thread_trace (snd (main_flow c w)))"
    and "child_env e = Some env"
  shows "env = AList.update ''OLLAMA_HOST'' ''0.0.0.0''
                 (AList.update ''OLLAMA_ORIGINS'' ''*'' (environ w))"
proof -
  let ?env = "AList.update ''OLLAMA_HOST'' ''0.0.0.0''
                (AList.update ''OLLAMA_ORIGINS'' ''*'' (environ w))"
  have no_child: "\<And>x. x \<in> set (fst (open_tunnel c w)) \<Longrightarrow> child_env x = None"
    by (auto simp: open_tunnel_def split: sum.splits if_splits)
  from assms(1) consider
      (thread) "e \<in> set (start_ollama_server w ?env)"
    | (pre) "e \<in> {SetAuthToken (NGROK_AUTH_TOKEN c), ThreadStart, Sleep 10 (warmup_result w),
                   Print (msg_total (length (MODELS_TO_PULL c)))}"
    | (pull) "e \<in> set (fst (pull_models w ?env 0 (MODELS_TO_PULL c)))"
    | (tunnel) "e \<in> set (fst (open_tunnel c w))"
    by (auto simp: main_flow_trace main_flow_store split: option.splits)
  then show ?thesis
  proof cases
    case thread
    with assms(2) show ?thesis by (auto simp: start_ollama_server_def)
  next
    case pre
    with assms(2) show ?thesis by auto
  next
    case pull
    then show ?thesis using assms(2) by (rule pull_models_child_env)
  next
    case tunnel
    with assms(2) show ?thesis by (simp add: no_child)
  qed
qed

lemma setitem_through_alias:
  "dict_setitem [e] environ_addr k v ! environ_addr = AList.update k v e"
  by (simp add: dict_setitem_def environ_addr_def)

subsection \<open>The whole script\<close>

lemma kills_idle_sleeps: "kills (replicate k (Sleep n None)) = []"
  by (induction k) simp_all

lemma connects_idle_sleeps: "connects (replicate k (Sleep n None)) = []"
  by (induction k) simp_all

lemma script_cases:
  "script c w =
     (case fst (main_flow c w) of
        Some e \<Rightarrow> Some \<lparr>final = snd (main_flow c w), uncaught = Some e\<rparr>
      | None \<Rightarrow> idle_wait w (snd (main_flow c w)))"
  by (simp add: script_def split: prod.splits option.splits)

lemma idle_wait_interrupted:
  assumes "idle_sleep w k = Some KeyboardInterrupt" and "\<forall>j<k. idle_sleep w j = None"
  shows "idle_wait w st =
     Some \<lparr>final = st\<lparr>trace := trace st @ replicate k (Sleep 1 None)
                @ [Sleep 1 (Some KeyboardInterrupt), Kill (kill_result w)]\<rparr>,
           uncaught = kill_result w\<rparr>"
proof -
  have "idle_loop w 0 (trace st)
      = Some (trace st @ replicate k (Sleep 1 None) @ [Sleep 1 (Some KeyboardInterrupt)],
              KeyboardInterrupt)"
    using assms by (intro idle_loop_interrupted) simp_all
  then show ?thesis by (simp add: idle_wait_def)
qed

lemma idle_wait_returns:
  assumes "idle_wait w st = Some r"
  shows "\<exists>k e. idle_sleep w k = Some e \<and> (\<forall>j<k. idle_sleep w j = None) \<and>
     trace (final r) = trace st @ replicate k (Sleep 1 None) @ [Sleep 1 (Some e)]
        @ (if isinstance_KeyboardInterrupt e then [Kill (kill_result w)] else [])"
proof -
  from assms obtain y where y: "idle_loop w 0 (trace st) = Some y"
    by (auto simp: idle_wait_def split: option.splits)
  from idle_loop_returns [OF y] obtain d where d: "idle_sleep w (0 + d) = Some (snd y)"
      "\<forall>j<d. idle_sleep w (0 + j) = None"
      "fst y = trace st @ replicate d (Sleep 1 None) @ [Sleep 1 (Some (snd y))]"
    by (elim exE conjE)
  have "trace (final r) = fst y @ (if isinstance_KeyboardInterrupt (snd y)
      then [Kill (kill_result w)] else [])"
    using assms y by (cases y) (auto simp: idle_wait_def split: if_splits)
  with d show ?thesis
    by (intro exI [of _ d] exI [of _ "snd y"]) simp
qed

lemma main_flow_connects:
  "fst (main_flow c w) = None \<Longrightarrow> connects (trace (snd (main_flow c w))) = [(11434, connect_result w)]"
  by (auto simp: main_flow_trace main_flow_exception connects_append pull_models_connects
      open_tunnel_observed split: option.splits)

lemma no_connect_if_connects_nil: "connects tr = [] \<Longrightarrow> Connect p r \<notin> set tr"
  by (induction tr rule: connects.induct) auto

lemma open_tunnel_head:
  "fst (open_tunnel c w) = Connect 11434 (connect_result w) # tl (fst (open_tunnel c w))"
  "connects (tl (fst (open_tunnel c w))) = []"
  "run_cmds (tl (fst (open_tunnel c w))) = []"
  by (simp_all add: open_tunnel_def split: sum.splits)

lemma main_flow_connect_reached:
  assumes "Connect p r \<in> set (trace (snd (main_flow c w)))"
  shows "warmup_result w = None
       \<and> snd (pull_models w (AList.update ''OLLAMA_HOST'' ''0.0.0.0''
                 (AList.update ''OLLAMA_ORIGINS'' ''*'' (environ w))) 0 (MODELS_TO_PULL c)) = None
       \<and> p = 11434 \<and> r = connect_result w"
proof -
  let ?env = "AList.update ''OLLAMA_HOST'' ''0.0.0.0''
                (AList.update ''OLLAMA_ORIGINS'' ''*'' (environ w))"
  have pulls: "Connect p r \<notin> set (fst (pull_models w ?env 0 (MODELS_TO_PULL c)))"
    by (rule no_connect_if_connects_nil) (rule pull_models_connects)
  have rest: "Connect p r \<notin> set (tl (fst (open_tunnel c w)))"
    by (rule no_connect_if_connects_nil) (rule open_tunnel_head)
  have tunnel: "Connect p r \<in> set (fst (open_tunnel c w)) \<Longrightarrow> p = 11434 \<and> r = connect_result w"
    using rest by (subst (asm) open_tunnel_head(1)) auto
  show ?thesis
  proof (cases "warmup_result w")
    case (Some e)
    with assms show ?thesis by (simp add: main_flow_trace)
  next
    case None
    note warm = this
    show ?thesis
    proof (cases "snd (pull_models w ?env 0 (MODELS_TO_PULL c))")
      case (Some e)
      with assms warm pulls show ?thesis by (simp add: main_flow_trace)
    next
      case None
      with assms warm pulls have "Connect p r \<in> set (fst (open_tunnel c w))"
        by (simp add: main_flow_trace)
      with tunnel warm None show ?thesis by simp
    qed
  qed
qed

lemma sample_run_script:
  "\<exists>r. script cfg_ab world_ok = Some r \<and> kills (trace (final r)) = [None]"
proof -
  have reached: "fst (main_flow cfg_ab world_ok) = None"
    by (simp add: main_flow_exception world_ok_def cfg_ab_def open_tunnel_def)
  have i2: "idle_sleep world_ok 2 = Some KeyboardInterrupt" and before: "\<forall>j<2. idle_sleep world_ok j = None"
    and k: "kill_result world_ok = None"
    by (simp_all add: world_ok_def)
  show ?thesis
    using reached idle_wait_interrupted [OF i2 before, of "snd (main_flow cfg_ab world_ok)"]
    by (simp add: script_cases k kills_append main_flow_kills kills_idle_sleeps)
qed

lemma tunnel_error_run_trace:
  "trace (snd (main_flow cfg_ab (world_ok\<lparr>connect_result := Inl e\<rparr>))) =
     [SetAuthToken ''T'', ThreadStart, Sleep 10 None, Print (msg_total (Suc (Suc 0))),
      Print (msg_downloading ''a''),
      Run (pull_cmd ''a'')
        [(''PATH'', ''/usr/bin''), (''OLLAMA_HOST'', ''0.0.0.0''), (''OLLAMA_ORIGINS'', ''*'')]
        (Inr 1),
      Print (msg_ready ''a''),
      Print (msg_downloading ''b''),
      Run (pull_cmd ''b'')
        [(''PATH'', ''/usr/bin''), (''OLLAMA_HOST'', ''0.0.0.0''), (''OLLAMA_ORIGINS'', ''*'')]
        (Inr 0),
      Print (msg_ready ''b'')]
     @ fst (open_tunnel cfg_ab (world_ok\<lparr>connect_result := Inl e\<rparr>))"
  by (simp add: main_flow_trace world_ok_def cfg_ab_def)

subsection \<open>The banner line with the URL\<close>

lemma msg_url_distinct:
  "msg_url u \<noteq> msg_total n"
  "msg_url u \<noteq> msg_downloading m"
  "msg_url u \<noteq> msg_ready m"
  "msg_url u \<noteq> msg_header"
  "msg_url u \<noteq> msg_models ms"
  by (simp_all add: msg_url_def msg_total_def msg_downloading_def msg_ready_def msg_header_def
      msg_models_def)

lemma msg_url_not_bar: "msg_url u \<noteq> msg_bar"
proof
  assume eq: "msg_url u = msg_bar"
  have "CHR 0x0A \<in> set (msg_url u)"
    by (simp add: msg_url_def)
  then have "CHR 0x0A \<in> set msg_bar"
    unfolding eq .
  then show False
    by (simp add: msg_bar_def)
qed

lemma msg_url_not_banner: "msg_url u \<noteq> msg_banner"
proof
  assume eq: "msg_url u = msg_banner"
  have "CHR 0xF0 \<in> set (msg_url u)"
    by (simp add: msg_url_def)
  then have "CHR 0xF0 \<in> set msg_banner"
    unfolding eq .
  then show False
    by (simp add: msg_banner_def msg_bar_def)
qed

lemmas msg_url_other = msg_url_distinct msg_url_not_bar msg_url_not_banner
  msg_url_distinct [THEN not_sym] msg_url_not_bar [THEN not_sym] msg_url_not_banner [THEN not_sym]

lemma pull_models_no_url: "Print (msg_url u) \<notin> set (fst (pull_models w env i ms))"
  by (induction ms arbitrary: i) (auto simp: split_beta msg_url_distinct split: sum.splits)

subsection \<open>Interleavings\<close>

lemma interleaved_left: "interleaved xs xs []"
  by (induction xs) simp_all

lemma interleaved_right: "interleaved ys [] ys"
  by (induction ys) simp_all

lemma interleaved_append:
  "interleaved a x1 y1 \<Longrightarrow> interleaved b x2 y2 \<Longrightarrow> interleaved (a @ b) (x1 @ x2) (y1 @ y2)"
proof (induction a arbitrary: x1 y1)
  case Nil
  then show ?case by simp
next
  case (Cons z a)
  from Cons.prems(1) consider
      (left) x1' where "x1 = z # x1'" "interleaved a x1' y1"
    | (right) y1' where "y1 = z # y1'" "interleaved a x1 y1'"
    by (auto split: list.splits)
  then show ?case
  proof cases
    case left
    with Cons.IH [OF left(2) Cons.prems(2)] show ?thesis by simp
  next
    case right
    with Cons.IH [OF right(2) Cons.prems(2)] show ?thesis by simp
  qed
qed

lemma interleaved_set: "interleaved zs xs ys \<Longrightarrow> set zs = set xs \<union> set ys"
proof (induction zs arbitrary: xs ys)
  case Nil
  then show ?case by simp
next
  case (Cons z zs)
  from Cons.prems consider
      (left) xs' where "xs = z # xs'" "interleaved zs xs' ys"
    | (right) ys' where "ys = z # ys'" "interleaved zs xs ys'"
    by (auto split: list.splits)
  then show ?case
  proof cases
    case left
    with Cons.IH [OF left(2)] show ?thesis by auto
  next
    case right
    with Cons.IH [OF right(2)] show ?thesis by auto
  qed
qed

lemma interleaved_split:
  "interleaved zs (xs1 @ p # xs2) ys \<Longrightarrow>
   \<exists>a b ys1 ys2. zs = a @ p # b \<and> ys = ys1 @ ys2 \<and> interleaved a xs1 ys1 \<and> interleaved b xs2 ys2"
proof (induction zs arbitrary: xs1 ys)
  case Nil
  then show ?case by simp
next
  case (Cons z zs)
  from Cons.prems consider
      (here) "xs1 = []" "p = z" "interleaved zs xs2 ys"
    | (left) xs1' where "xs1 = z # xs1'" "interleaved zs (xs1' @ p # xs2) ys"
    | (right) ys' where "ys = z # ys'" "interleaved zs (xs1 @ p # xs2) ys'"
    by (cases xs1) (auto split: list.splits)
  then show ?case
  proof cases
    case here
    have "z # zs = [] @ p # zs \<and> ys = [] @ ys \<and> interleaved [] xs1 [] \<and> interleaved zs xs2 ys"
      using here by simp
    then show ?thesis by (intro exI)
  next
    case left
    from Cons.IH [OF left(2)] obtain a b ys1 ys2
      where "zs = a @ p # b" "ys = ys1 @ ys2" "interleaved a xs1' ys1" "interleaved b xs2 ys2"
      by (elim exE conjE)
    then have "z # zs = (z # a) @ p # b \<and> ys = ys1 @ ys2
        \<and> interleaved (z # a) xs1 ys1 \<and> interleaved b xs2 ys2"
      using left(1) by simp
    then show ?thesis by (intro exI)
  next
    case right
    from Cons.IH [OF right(2)] obtain a b ys1 ys2
      where "zs = a @ p # b" "ys' = ys1 @ ys2" "interleaved a xs1 ys1" "interleaved b xs2 ys2"
      by (elim exE conjE)
    then have "z # zs = (z # a) @ p # b \<and> ys = (z # ys1) @ ys2
        \<and> interleaved (z # a) xs1 (z # ys1) \<and> interleaved b xs2 ys2"
      using right(1) by simp
    then show ?thesis by (intro exI)
  qed
qed


lemma steps_set_no_run:
  "Enter (Run cmd env r) \<notin> set (steps (start_ollama_server w env'))"
  by (simp add: start_ollama_server_def)

lemma late_schedule_allowed:
  assumes "e0 \<noteq> ThreadStart"
  shows "global_order (e0 # ThreadStart # s # rest) th
     ([Enter e0, Leave e0, Enter ThreadStart, Leave ThreadStart, Enter s]
      @ steps th @ Leave s # steps rest)"
proof -
  have "interleaved ([Leave ThreadStart, Enter s] @ steps th @ (Leave s # steps rest))
      ([Leave ThreadStart, Enter s] @ [] @ (Leave s # steps rest)) ([] @ steps th @ [])"
    by (intro interleaved_append interleaved_left interleaved_right)
  then show ?thesis
    using assms by simp
qed

lemma late_serve_schedule_allowed:
  "global_order (trace (snd (main_flow cfg_ab world_ok)))
     (thread_trace (snd (main_flow cfg_ab world_ok))) late_serve_schedule"
proof -
  define rest where "rest = drop 3 (trace (snd (main_flow cfg_ab world_ok)))"
  have tr: "trace (snd (main_flow cfg_ab world_ok))
      = SetAuthToken ''T'' # ThreadStart # Sleep 10 None # rest"
    unfolding rest_def by (simp add: sample_run_trace)
  have sched: "late_serve_schedule
      = [Enter (SetAuthToken ''T''), Leave (SetAuthToken ''T''),
         Enter ThreadStart, Leave ThreadStart, Enter (Sleep 10 None)]
        @ steps (thread_trace (snd (main_flow cfg_ab world_ok)))
        @ Leave (Sleep 10 None) # steps rest"
    unfolding rest_def late_serve_schedule_def ..
  show ?thesis
    unfolding tr sched by (rule late_schedule_allowed) simp
qed

section \<open>The claims\<close>

subsection \<open>The fetch stage\<close>

text \<open>
  C1. For a configured list of N model identifiers, when the warmup completes and every
  \<open>ollama pull\<close> ends with an exit status, whatever the statuses are, the script calls
  \<open>subprocess.run\<close> exactly N times: once per identifier, with the command
  \<open>ollama pull <identifier>\<close>, in the order of the list. No status stops the loop and no
  download is tried twice.
\<close>

theorem fetch_pulls_each_model_once_in_order:
  assumes "warmup_result w = None"
    and "\<forall>i<length (MODELS_TO_PULL c). \<exists>rc. run_result w i = Inr rc"
  shows "run_cmds (trace (snd (main_flow c w))) = map pull_cmd (MODELS_TO_PULL c)
       \<and> length (run_cmds (trace (snd (main_flow c w)))) = length (MODELS_TO_PULL c)"
proof -
  let ?env = "AList.update ''OLLAMA_HOST'' ''0.0.0.0''
                (AList.update ''OLLAMA_ORIGINS'' ''*'' (environ w))"
  have fin: "snd (pull_models w ?env 0 (MODELS_TO_PULL c)) = None"
    using assms(2) by (intro pull_models_all_exit) simp
  then have "run_cmds (fst (pull_models w ?env 0 (MODELS_TO_PULL c))) = map pull_cmd (MODELS_TO_PULL c)"
    by (rule pull_models_completed)
  then have "run_cmds (trace (snd (main_flow c w))) = map pull_cmd (MODELS_TO_PULL c)"
    using assms(1) fin by (simp add: main_flow_trace run_cmds_append open_tunnel_observed)
  then show ?thesis by simp
qed

theorem fetch_pulls_each_model_once_in_order_witness:
  "warmup_result world_ok = None \<and> run_result world_ok 0 = Inr 1 \<and> run_result world_ok 1 = Inr 0
   \<and> run_cmds (trace (snd (main_flow cfg_ab world_ok)))
       = [[''ollama'', ''pull'', ''a''], [''ollama'', ''pull'', ''b'']]"
proof -
  have h1: "warmup_result world_ok = None"
    by (simp add: world_ok_def)
  have h2: "\<forall>i<length (MODELS_TO_PULL cfg_ab). \<exists>rc. run_result world_ok i = Inr rc"
    by (simp add: world_ok_def cfg_ab_def)
  show ?thesis
    using fetch_pulls_each_model_once_in_order [OF h1 h2]
    by (simp add: world_ok_def cfg_ab_def pull_cmd_def)
qed

text \<open>
  C7. Whenever an \<open>ollama pull\<close> has ended with an exit status, zero or not, the very
  next thing the script does is to print the ready message of that model, the check mark
  U+2705 followed by the name of the model and the word for ready, given here byte by
  byte: the status is never looked at before the message is printed.
\<close>

theorem ready_printed_after_every_exit:
  assumes "trace (snd (main_flow c w)) = xs @ Run cmd env (Inr rc) # ys"
  shows "\<exists>model zs. cmd = [''ollama'', ''pull'', model]
           \<and> ys = Print ([CHR 0xE2, CHR 0x9C, CHR 0x85] @ '' '' @ model @ '' haz''
                       @ [CHR 0xC4, CHR 0xB1] @ ''r!'') # zs"
proof -
  let ?env = "AList.update ''OLLAMA_HOST'' ''0.0.0.0''
                (AList.update ''OLLAMA_ORIGINS'' ''*'' (environ w))"
  let ?e = "Run cmd env (Inr rc)"
  let ?A = "[SetAuthToken (NGROK_AUTH_TOKEN c), ThreadStart, Sleep 10 (warmup_result w),
             Print (msg_total (length (MODELS_TO_PULL c)))]"
  let ?B = "fst (pull_models w ?env 0 (MODELS_TO_PULL c))"
  let ?C = "case snd (pull_models w ?env 0 (MODELS_TO_PULL c)) of
              Some e \<Rightarrow> [] | None \<Rightarrow> fst (open_tunnel c w)"
  have mem: "?e \<in> set (trace (snd (main_flow c w)))"
    unfolding assms by simp
  have warm: "warmup_result w = None"
  proof (cases "warmup_result w")
    case None
    then show ?thesis .
  next
    case (Some e)
    then have "trace (snd (main_flow c w))
        = [SetAuthToken (NGROK_AUTH_TOKEN c), ThreadStart, Sleep 10 (warmup_result w)]"
      by (simp add: main_flow_trace)
    with mem show ?thesis by simp
  qed
  have tr: "trace (snd (main_flow c w)) = ?A @ (?B @ ?C)"
    using warm by (simp add: main_flow_trace)
  have eq: "?A @ (?B @ ?C) = xs @ ?e # ys"
    by (rule assms [unfolded tr])
  have notA: "?e \<notin> set ?A"
    by simp
  from split_after_prefix [OF eq notA] obtain xs' where eq': "?B @ ?C = xs' @ ?e # ys"
    by (elim exE conjE)
  have notC: "?e \<notin> set ?C"
    by (simp add: open_tunnel_no_run split: option.splits)
  from split_before_suffix [OF eq' notC] obtain ys'
    where B: "?B = xs' @ ?e # ys'" and ys: "ys = ys' @ ?C"
    by (elim exE conjE)
  from pull_models_ready [OF B] obtain model zs
    where "cmd = pull_cmd model" "ys' = Print (msg_ready model) # zs"
    by (elim exE conjE)
  with ys have "cmd = [''ollama'', ''pull'', model]
           \<and> ys = Print ([CHR 0xE2, CHR 0x9C, CHR 0x85] @ '' '' @ model @ '' haz''
                       @ [CHR 0xC4, CHR 0xB1] @ ''r!'') # (zs @ ?C)"
    by (simp add: pull_cmd_def msg_ready_def)
  then show ?thesis by (intro exI)
qed

theorem ready_printed_after_every_exit_witness:
  "trace (snd (main_flow cfg_ab world_ok))
     = take 5 (trace (snd (main_flow cfg_ab world_ok)))
       @ Run [''ollama'', ''pull'', ''a'']
           [(''PATH'', ''/usr/bin''), (''OLLAMA_HOST'', ''0.0.0.0''), (''OLLAMA_ORIGINS'', ''*'')]
           (Inr 1)
       # drop 6 (trace (snd (main_flow cfg_ab world_ok)))
   \<and> hd (drop 6 (trace (snd (main_flow cfg_ab world_ok))))
       = Print ([CHR 0xE2, CHR 0x9C, CHR 0x85] @ '' a haz'' @ [CHR 0xC4, CHR 0xB1] @ ''r!'')"
proof -
  have h: "trace (snd (main_flow cfg_ab world_ok))
     = take 5 (trace (snd (main_flow cfg_ab world_ok)))
       @ Run [''ollama'', ''pull'', ''a'']
           [(''PATH'', ''/usr/bin''), (''OLLAMA_HOST'', ''0.0.0.0''), (''OLLAMA_ORIGINS'', ''*'')]
           (Inr 1)
       # drop 6 (trace (snd (main_flow cfg_ab world_ok)))"
    by (simp add: sample_run_trace pull_cmd_def)
  from ready_printed_after_every_exit [OF h] obtain model zs
    where m: "[''ollama'', ''pull'', ''a''] = [''ollama'', ''pull'', model]"
      and "drop 6 (trace (snd (main_flow cfg_ab world_ok)))
         = Print ([CHR 0xE2, CHR 0x9C, CHR 0x85] @ '' '' @ model @ '' haz''
                  @ [CHR 0xC4, CHR 0xB1] @ ''r!'') # zs"
    by (elim exE conjE)
  moreover from m have "model = ''a''"
    by simp
  ultimately have "hd (drop 6 (trace (snd (main_flow cfg_ab world_ok))))
       = Print ([CHR 0xE2, CHR 0x9C, CHR 0x85] @ '' a haz'' @ [CHR 0xC4, CHR 0xB1] @ ''r!'')"
    by simp
  with h show ?thesis by (intro conjI)
qed

subsection \<open>The warmup\<close>

text \<open>
  C6, as the code has it. In every order in which a run can be observed, the call that
  starts the launcher thread is entered, then the main flow enters its sleep of 10, and
  only after that sleep has returned does anything else of the main flow happen: no
  \<open>ollama pull\<close> is entered before the delay has completed, and none at all when the sleep
  is interrupted. The command \<open>ollama serve\<close> is issued by the launcher thread, once, at
  some point after the start of the thread has been entered; nothing orders it against
  the sleep.
\<close>

theorem warmup_after_thread_start_before_pulls:
  assumes "global_order (trace (snd (main_flow c w))) (thread_trace (snd (main_flow c w))) zs"
  shows "\<exists>a b t1 t2 rest.
      trace (snd (main_flow c w))
        = [SetAuthToken (NGROK_AUTH_TOKEN c), ThreadStart, Sleep 10 (warmup_result w)] @ rest
    \<and> zs = [Enter (SetAuthToken (NGROK_AUTH_TOKEN c)), Leave (SetAuthToken (NGROK_AUTH_TOKEN c)),
            Enter ThreadStart]
           @ a @ Leave (Sleep 10 (warmup_result w)) # b
    \<and> interleaved a [Leave ThreadStart, Enter (Sleep 10 (warmup_result w))] t1
    \<and> interleaved b (steps rest) t2
    \<and> t1 @ t2
        = [Enter (Print msg_starting), Leave (Print msg_starting),
           Enter (Popen [''ollama'', ''serve'']
                    (heap (snd (main_flow c w)) ! my_env (snd (main_flow c w))) (popen_result w)),
           Leave (Popen [''ollama'', ''serve'']
                    (heap (snd (main_flow c w)) ! my_env (snd (main_flow c w))) (popen_result w))]
    \<and> (\<forall>cmd env r. Enter (Run cmd env r) \<notin> set a)
    \<and> (warmup_result w \<noteq> None \<longrightarrow> rest = [])
    \<and> Enter (Popen [''ollama'', ''serve'']
                (heap (snd (main_flow c w)) ! my_env (snd (main_flow c w))) (popen_result w))
         \<in> set a \<union> set b"
proof -
  let ?env = "AList.update ''OLLAMA_HOST'' ''0.0.0.0''
                (AList.update ''OLLAMA_ORIGINS'' ''*'' (environ w))"
  let ?tok = "SetAuthToken (NGROK_AUTH_TOKEN c)"
  let ?sleep = "Sleep 10 (warmup_result w)"
  let ?popen = "Popen [''ollama'', ''serve''] ?env (popen_result w)"
  let ?th = "[Enter (Print msg_starting), Leave (Print msg_starting), Enter ?popen, Leave ?popen]"
  obtain rest where tr: "trace (snd (main_flow c w)) = [?tok, ThreadStart, ?sleep] @ rest"
    using main_flow_trace [of c w] by (rule that)
  have env: "heap (snd (main_flow c w)) ! my_env (snd (main_flow c w)) = ?env"
    by (simp add: main_flow_store)
  have th: "steps (thread_trace (snd (main_flow c w))) = ?th"
    by (simp add: main_flow_store start_ollama_server_def)
  have stop: "warmup_result w \<noteq> None \<longrightarrow> rest = []"
  proof
    assume "warmup_result w \<noteq> None"
    then have "trace (snd (main_flow c w)) = [?tok, ThreadStart, ?sleep]"
      by (auto simp: main_flow_trace)
    with tr show "rest = []" by simp
  qed
  have "global_order ([?tok, ThreadStart, ?sleep] @ rest)
      (thread_trace (snd (main_flow c w))) zs"
    using assms unfolding tr .
  then have "\<exists>zs2. zs = [Enter ?tok, Leave ?tok, Enter ThreadStart] @ zs2
      \<and> interleaved zs2 ([Leave ThreadStart, Enter ?sleep] @ Leave ?sleep # steps rest)
           (steps (thread_trace (snd (main_flow c w))))"
    by (auto split: list.splits)
  then obtain zs2
    where zs: "zs = [Enter ?tok, Leave ?tok, Enter ThreadStart] @ zs2"
      and inter: "interleaved zs2 ([Leave ThreadStart, Enter ?sleep] @ Leave ?sleep # steps rest) ?th"
    unfolding th by (elim exE conjE)
  from interleaved_split [OF inter] obtain a b t1 t2
    where zs2: "zs2 = a @ Leave ?sleep # b" and t: "?th = t1 @ t2"
      and a: "interleaved a [Leave ThreadStart, Enter ?sleep] t1"
      and b: "interleaved b (steps rest) t2"
    by (elim exE conjE)
  have sets: "set a = set [Leave ThreadStart, Enter ?sleep] \<union> set t1"
      "set b = set (steps rest) \<union> set t2"
    by (rule interleaved_set [OF a], rule interleaved_set [OF b])
  have thset: "set t1 \<union> set t2 = set ?th"
    unfolding t by simp
  have norun: "\<forall>cmd env r. Enter (Run cmd env r) \<notin> set a"
  proof (intro allI)
    fix cmd env r
    have "Enter (Run cmd env r) \<notin> set ?th" by simp
    then have "Enter (Run cmd env r) \<notin> set t1"
      using thset by blast
    then show "Enter (Run cmd env r) \<notin> set a"
      unfolding sets by simp
  qed
  have "Enter ?popen \<in> set ?th" by simp
  then have served: "Enter ?popen \<in> set a \<union> set b"
    using thset unfolding sets by blast
  have "trace (snd (main_flow c w)) = [?tok, ThreadStart, ?sleep] @ rest
    \<and> zs = [Enter ?tok, Leave ?tok, Enter ThreadStart] @ a @ Leave ?sleep # b
    \<and> interleaved a [Leave ThreadStart, Enter ?sleep] t1
    \<and> interleaved b (steps rest) t2
    \<and> t1 @ t2 = ?th
    \<and> (\<forall>cmd env r. Enter (Run cmd env r) \<notin> set a)
    \<and> (warmup_result w \<noteq> None \<longrightarrow> rest = [])
    \<and> Enter ?popen \<in> set a \<union> set b"
    using tr zs zs2 a b t [symmetric] norun stop served by (intro conjI) simp_all
  then show ?thesis
    unfolding env by (intro exI)
qed


theorem warmup_after_thread_start_before_pulls_witness:
  "global_order (trace (snd (main_flow cfg_ab world_ok)))
     (thread_trace (snd (main_flow cfg_ab world_ok))) late_serve_schedule
   \<and> (\<exists>a b. late_serve_schedule
          = [Enter (SetAuthToken ''T''), Leave (SetAuthToken ''T''), Enter ThreadStart]
            @ a @ Leave (Sleep 10 None) # b
        \<and> Enter (Run [''ollama'', ''pull'', ''a''] 
            [(''PATH'', ''/usr/bin''), (''OLLAMA_HOST'', ''0.0.0.0''), (''OLLAMA_ORIGINS'', ''*'')] (Inr 1)) \<notin> set a
        \<and> Enter (Popen [''ollama'', ''serve''] 
            [(''PATH'', ''/usr/bin''), (''OLLAMA_HOST'', ''0.0.0.0''), (''OLLAMA_ORIGINS'', ''*'')] None) \<in> set a \<union> set b)"
proof -
  have h: "global_order (trace (snd (main_flow cfg_ab world_ok)))
     (thread_trace (snd (main_flow cfg_ab world_ok))) late_serve_schedule"
    by (rule late_serve_schedule_allowed)
  have tok: "NGROK_AUTH_TOKEN cfg_ab = ''T''"
    and warm: "warmup_result world_ok = None"
    and popen: "popen_result world_ok = None"
    and env: "heap (snd (main_flow cfg_ab world_ok)) ! my_env (snd (main_flow cfg_ab world_ok))
        = 
            [(''PATH'', ''/usr/bin''), (''OLLAMA_HOST'', ''0.0.0.0''), (''OLLAMA_ORIGINS'', ''*'')]"
    by (simp_all add: cfg_ab_def world_ok_def main_flow_store)
  from warmup_after_thread_start_before_pulls [OF h] obtain a b
    where sched: "late_serve_schedule
          = [Enter (SetAuthToken (NGROK_AUTH_TOKEN cfg_ab)),
             Leave (SetAuthToken (NGROK_AUTH_TOKEN cfg_ab)), Enter ThreadStart]
            @ a @ Leave (Sleep 10 (warmup_result world_ok)) # b"
      and norun: "\<forall>cmd env r. Enter (Run cmd env r) \<notin> set a"
      and served: "Enter (Popen [''ollama'', ''serve'']
             (heap (snd (main_flow cfg_ab world_ok)) ! my_env (snd (main_flow cfg_ab world_ok)))
             (popen_result world_ok)) \<in> set a \<union> set b"
    by (elim exE conjE)
  have "late_serve_schedule
          = [Enter (SetAuthToken ''T''), Leave (SetAuthToken ''T''), Enter ThreadStart]
            @ a @ Leave (Sleep 10 None) # b
        \<and> Enter (Run [''ollama'', ''pull'', ''a''] 
            [(''PATH'', ''/usr/bin''), (''OLLAMA_HOST'', ''0.0.0.0''), (''OLLAMA_ORIGINS'', ''*'')] (Inr 1)) \<notin> set a
        \<and> Enter (Popen [''ollama'', ''serve''] 
            [(''PATH'', ''/usr/bin''), (''OLLAMA_HOST'', ''0.0.0.0''), (''OLLAMA_ORIGINS'', ''*'')] None) \<in> set a \<union> set b"
    using sched [unfolded tok warm] norun [THEN spec, THEN spec, THEN spec] served [unfolded env popen]
    by (intro conjI)
  then have "\<exists>a b. late_serve_schedule
          = [Enter (SetAuthToken ''T''), Leave (SetAuthToken ''T''), Enter ThreadStart]
            @ a @ Leave (Sleep 10 None) # b
        \<and> Enter (Run [''ollama'', ''pull'', ''a''] 
            [(''PATH'', ''/usr/bin''), (''OLLAMA_HOST'', ''0.0.0.0''), (''OLLAMA_ORIGINS'', ''*'')] (Inr 1)) \<notin> set a
        \<and> Enter (Popen [''ollama'', ''serve''] 
            [(''PATH'', ''/usr/bin''), (''OLLAMA_HOST'', ''0.0.0.0''), (''OLLAMA_ORIGINS'', ''*'')] None) \<in> set a \<union> set b"
    by (intro exI)
  with h show ?thesis by (rule conjI)
qed

text \<open>
  C6, as stated, has the whole delay after the serve command is issued. The code does
  not wait for the launcher thread: in this order of the sample run, which the code
  allows, the main flow has entered its sleep before the thread prints and calls
  \<open>Popen\<close>, so part of the delay has passed before the command is issued.
\<close>

theorem serve_issued_during_warmup_counterexample:
  "global_order (trace (snd (main_flow cfg_ab world_ok)))
     (thread_trace (snd (main_flow cfg_ab world_ok))) late_serve_schedule
   \<and> take 10 late_serve_schedule
       = [Enter (SetAuthToken ''T''), Leave (SetAuthToken ''T''),
          Enter ThreadStart, Leave ThreadStart,
          Enter (Sleep 10 None),
          Enter (Print msg_starting), Leave (Print msg_starting),
          Enter (Popen [''ollama'', ''serve''] 
            [(''PATH'', ''/usr/bin''), (''OLLAMA_HOST'', ''0.0.0.0''), (''OLLAMA_ORIGINS'', ''*'')] None),
          Leave (Popen [''ollama'', ''serve''] 
            [(''PATH'', ''/usr/bin''), (''OLLAMA_HOST'', ''0.0.0.0''), (''OLLAMA_ORIGINS'', ''*'')] None),
          Leave (Sleep 10 None)]"
proof -
  have "take 10 late_serve_schedule
       = [Enter (SetAuthToken ''T''), Leave (SetAuthToken ''T''),
          Enter ThreadStart, Leave ThreadStart,
          Enter (Sleep 10 None),
          Enter (Print msg_starting), Leave (Print msg_starting),
          Enter (Popen [''ollama'', ''serve''] 
            [(''PATH'', ''/usr/bin''), (''OLLAMA_HOST'', ''0.0.0.0''), (''OLLAMA_ORIGINS'', ''*'')] None),
          Leave (Popen [''ollama'', ''serve''] 
            [(''PATH'', ''/usr/bin''), (''OLLAMA_HOST'', ''0.0.0.0''), (''OLLAMA_ORIGINS'', ''*'')] None),
          Leave (Sleep 10 None)]"
    by (simp add: late_serve_schedule_def main_flow_store start_ollama_server_def world_ok_def)
  with late_serve_schedule_allowed show ?thesis by (rule conjI)
qed

subsection \<open>The environment of the children\<close>

text \<open>
  C4. Every event that starts a child process, the \<open>ollama serve\<close> of the launcher thread
  and each \<open>ollama pull\<close> of the main flow, hands it the dict bound to \<open>my_env\<close>. That
  dict binds \<open>OLLAMA_ORIGINS\<close> to \<open>*\<close> and \<open>OLLAMA_HOST\<close> to \<open>0.0.0.0\<close>, and omits no
  variable of the inherited environment: every inherited variable is bound in it, with
  its inherited value unless it is one of the two overridden variables.
\<close>

theorem children_get_overrides_and_inherited_entries:
  assumes "e \<in> set (trace (snd (main_flow c w))) \<union> set (thread_trace (snd (main_flow c w)))"
    and "child_env e = Some env"
  shows "env = heap (snd (main_flow c w)) ! my_env (snd (main_flow c w))
       \<and> map_of env ''OLLAMA_ORIGINS'' = Some ''*''
       \<and> map_of env ''OLLAMA_HOST'' = Some ''0.0.0.0''
       \<and> (\<forall>k v. map_of (environ w) k = Some v \<longrightarrow>
             k \<in> fst ` set env \<and>
             (k \<noteq> ''OLLAMA_ORIGINS'' \<and> k \<noteq> ''OLLAMA_HOST'' \<longrightarrow> map_of env k = Some v))"
proof -
  have env: "env = AList.update ''OLLAMA_HOST'' ''0.0.0.0''
                     (AList.update ''OLLAMA_ORIGINS'' ''*'' (environ w))"
    using assms by (rule main_flow_child_env)
  have keys: "\<And>k v. map_of (environ w) k = Some v \<Longrightarrow> k \<in> fst ` set (environ w)"
    by (metis domI dom_map_of_conv_image_fst)
  show ?thesis
    unfolding env
    by (auto simp: main_flow_store overrides_written overrides_keep_keys dest: keys)
qed

theorem children_get_overrides_and_inherited_entries_witness:
  "Popen [''ollama'', ''serve'']
      [(''PATH'', ''/usr/bin''), (''OLLAMA_HOST'', ''0.0.0.0''), (''OLLAMA_ORIGINS'', ''*'')] None
     \<in> set (trace (snd (main_flow cfg_ab world_ok)))
       \<union> set (thread_trace (snd (main_flow cfg_ab world_ok)))
   \<and> child_env (Popen [''ollama'', ''serve'']
        [(''PATH'', ''/usr/bin''), (''OLLAMA_HOST'', ''0.0.0.0''), (''OLLAMA_ORIGINS'', ''*'')] None)
      = Some [(''PATH'', ''/usr/bin''), (''OLLAMA_HOST'', ''0.0.0.0''), (''OLLAMA_ORIGINS'', ''*'')]
   \<and> map_of (environ world_ok) ''PATH'' = Some ''/usr/bin''
   \<and> map_of [(''PATH'', ''/usr/bin''), (''OLLAMA_HOST'', ''0.0.0.0''), (''OLLAMA_ORIGINS'', ''*'')]
        ''OLLAMA_ORIGINS'' = Some ''*''
   \<and> map_of [(''PATH'', ''/usr/bin''), (''OLLAMA_HOST'', ''0.0.0.0''), (''OLLAMA_ORIGINS'', ''*'')]
        ''PATH'' = Some ''/usr/bin''"
proof -
  let ?env = "[(''PATH'', ''/usr/bin''), (''OLLAMA_HOST'', ''0.0.0.0''), (''OLLAMA_ORIGINS'', ''*'')]"
  have h1: "Popen [''ollama'', ''serve''] ?env None
     \<in> set (trace (snd (main_flow cfg_ab world_ok)))
       \<union> set (thread_trace (snd (main_flow cfg_ab world_ok)))"
    by (simp add: main_flow_store start_ollama_server_def world_ok_def)
  have h2: "child_env (Popen [''ollama'', ''serve''] ?env None) = Some ?env"
    by simp
  have h3: "map_of (environ world_ok) ''PATH'' = Some ''/usr/bin''"
    by (simp add: world_ok_def)
  note r = children_get_overrides_and_inherited_entries [OF h1 h2]
  have c1: "map_of ?env ''OLLAMA_ORIGINS'' = Some ''*''"
    by (rule r [THEN conjunct2, THEN conjunct1])
  have c2: "map_of ?env ''PATH'' = Some ''/usr/bin''"
    using r [THEN conjunct2, THEN conjunct2, THEN conjunct2, THEN spec, THEN spec, THEN mp,
             OF h3, THEN conjunct2]
    by simp
  show ?thesis
    using h1 h2 h3 c1 c2 by (intro conjI)
qed

text \<open>
  C9. The child environment is a copy: \<open>my_env\<close> is bound to an object other than
  \<open>os.environ\<close>, the two overrides are written into that object, and the object
  \<open>os.environ\<close> is, after the writes and in the state the main flow ends with, what it
  was at the start; it has gained no entry.
\<close>

theorem parent_environment_unchanged_by_copy:
  "fst (build_env [environ w]) \<noteq> environ_addr
   \<and> snd (build_env [environ w]) ! environ_addr = environ w
   \<and> snd (build_env [environ w]) ! fst (build_env [environ w])
       = AList.update ''OLLAMA_HOST'' ''0.0.0.0'' (AList.update ''OLLAMA_ORIGINS'' ''*'' (environ w))
   \<and> my_env (snd (main_flow c w)) = fst (build_env [environ w])
   \<and> heap (snd (main_flow c w)) = snd (build_env [environ w])
   \<and> map_of (heap (snd (main_flow c w)) ! environ_addr) = map_of (environ w)"
  by (simp add: build_env_single main_flow_store environ_addr_def)

subsection \<open>The idle wait and the teardown\<close>

text \<open>
  C3. When the script has reached the idle loop and a \<open>KeyboardInterrupt\<close> arrives during
  one of its sleeps, the script ends: it calls \<open>ngrok.kill\<close> exactly once, as its last
  action, and nothing before the idle loop has called it. The script then leaves with
  whatever \<open>ngrok.kill\<close> raised, normally with nothing.
\<close>

theorem interrupt_in_idle_kills_tunnel_once_and_exits:
  assumes "fst (main_flow c w) = None"
    and "idle_sleep w k = Some KeyboardInterrupt"
    and "\<forall>j<k. idle_sleep w j = None"
  shows "\<exists>r. script c w = Some r
       \<and> trace (final r) = trace (snd (main_flow c w)) @ replicate k (Sleep 1 None)
            @ [Sleep 1 (Some KeyboardInterrupt), Kill (kill_result w)]
       \<and> kills (trace (final r)) = [kill_result w]
       \<and> kills (trace (snd (main_flow c w))) = []
       \<and> uncaught r = kill_result w"
proof -
  let ?st = "snd (main_flow c w)"
  let ?r = "\<lparr>final = ?st\<lparr>trace := trace ?st @ replicate k (Sleep 1 None)
                @ [Sleep 1 (Some KeyboardInterrupt), Kill (kill_result w)]\<rparr>,
           uncaught = kill_result w\<rparr>"
  have "script c w = Some ?r"
    using assms(1) idle_wait_interrupted [OF assms(2,3)] by (simp add: script_cases)
  moreover have "kills (trace (final ?r)) = [kill_result w]"
    by (simp add: kills_append main_flow_kills kills_idle_sleeps)
  ultimately show ?thesis by (simp add: main_flow_kills)
qed

theorem interrupt_in_idle_kills_tunnel_once_and_exits_witness:
  "fst (main_flow cfg_ab world_ok) = None
   \<and> idle_sleep world_ok 2 = Some KeyboardInterrupt
   \<and> idle_sleep world_ok 0 = None \<and> idle_sleep world_ok 1 = None
   \<and> (\<exists>r. script cfg_ab world_ok = Some r
         \<and> kills (trace (final r)) = [None] \<and> uncaught r = None)"
proof -
  have h1: "fst (main_flow cfg_ab world_ok) = None"
    by (simp add: main_flow_exception world_ok_def cfg_ab_def open_tunnel_def)
  have h2: "idle_sleep world_ok 2 = Some KeyboardInterrupt"
    by (simp add: world_ok_def)
  have h3: "\<forall>j<2. idle_sleep world_ok j = None"
    by (simp add: world_ok_def)
  have k: "kill_result world_ok = None"
    by (simp add: world_ok_def)
  from interrupt_in_idle_kills_tunnel_once_and_exits [OF h1 h2 h3]
  have "\<exists>r. script cfg_ab world_ok = Some r
         \<and> kills (trace (final r)) = [None] \<and> uncaught r = None"
    unfolding k by blast
  moreover have "idle_sleep world_ok 0 = None" "idle_sleep world_ok 1 = None"
    by (simp_all add: world_ok_def)
  ultimately show ?thesis using h1 h2 by (intro conjI)
qed

text \<open>
  C10. The teardown does not depend on the tunnel: in a run where \<open>ngrok.connect\<close> raised
  and the exception was contained, so that no tunnel was ever opened, an interrupt during
  the idle loop still makes the script call \<open>ngrok.kill\<close>, as its last action.
\<close>

theorem tunnel_killed_even_when_never_opened:
  assumes "fst (main_flow c w) = None"
    and "connect_result w = Inl e"
    and "idle_sleep w k = Some KeyboardInterrupt"
    and "\<forall>j<k. idle_sleep w j = None"
  shows "\<exists>r. script c w = Some r
       \<and> connects (trace (final r)) = [(11434, Inl e)]
       \<and> last (trace (final r)) = Kill (kill_result w)"
proof -
  let ?st = "snd (main_flow c w)"
  let ?r = "\<lparr>final = ?st\<lparr>trace := trace ?st @ replicate k (Sleep 1 None)
                @ [Sleep 1 (Some KeyboardInterrupt), Kill (kill_result w)]\<rparr>,
           uncaught = kill_result w\<rparr>"
  have "script c w = Some ?r"
    using assms(1) idle_wait_interrupted [OF assms(3,4)] by (simp add: script_cases)
  moreover have "connects (trace (final ?r)) = [(11434, Inl e)]"
    using assms(2) main_flow_connects [OF assms(1)]
    by (simp add: connects_append connects_idle_sleeps)
  moreover have "last (trace (final ?r)) = Kill (kill_result w)"
    by simp
  ultimately show ?thesis by blast
qed

theorem tunnel_killed_even_when_never_opened_witness:
  "fst (main_flow cfg_ab world_tunnel_error) = None
   \<and> connect_result world_tunnel_error = Inl (Exception ''auth failed'')
   \<and> idle_sleep world_tunnel_error 2 = Some KeyboardInterrupt
   \<and> idle_sleep world_tunnel_error 0 = None \<and> idle_sleep world_tunnel_error 1 = None
   \<and> (\<exists>r. script cfg_ab world_tunnel_error = Some r
         \<and> connects (trace (final r)) = [(11434, Inl (Exception ''auth failed''))]
         \<and> last (trace (final r)) = Kill None)"
proof -
  have h1: "fst (main_flow cfg_ab world_tunnel_error) = None"
    by (simp add: main_flow_exception world_tunnel_error_def world_ok_def cfg_ab_def
        open_tunnel_def)
  have h2: "connect_result world_tunnel_error = Inl (Exception ''auth failed'')"
    by (simp add: world_tunnel_error_def)
  have h3: "idle_sleep world_tunnel_error 2 = Some KeyboardInterrupt"
    by (simp add: world_tunnel_error_def world_ok_def)
  have h4: "\<forall>j<2. idle_sleep world_tunnel_error j = None"
    by (simp add: world_tunnel_error_def world_ok_def)
  have k: "kill_result world_tunnel_error = None"
    by (simp add: world_tunnel_error_def world_ok_def)
  from tunnel_killed_even_when_never_opened [OF h1 h2 h3 h4]
  have "\<exists>r. script cfg_ab world_tunnel_error = Some r
         \<and> connects (trace (final r)) = [(11434, Inl (Exception ''auth failed''))]
         \<and> last (trace (final r)) = Kill None"
    unfolding k .
  moreover have "idle_sleep world_tunnel_error 0 = None" "idle_sleep world_tunnel_error 1 = None"
    by (simp_all add: world_tunnel_error_def world_ok_def)
  ultimately show ?thesis using h1 h2 h3 by (intro conjI)
qed

text \<open>
  C8. \<open>ngrok.kill\<close> is called from the handler of the idle loop and from nowhere else.
  Nothing before the idle loop calls it, in any run. A run that an exception ends before
  the idle loop, in particular an interrupt during the warmup sleep or during a download,
  ends there, with that exception and without teardown. And a finished run in which
  \<open>ngrok.kill\<close> was called is a run that reached the idle loop and was interrupted in it.
\<close>

theorem teardown_only_from_idle_interrupt:
  "kills (trace (snd (main_flow c w))) = []
   \<and> (\<forall>e. fst (main_flow c w) = Some e \<longrightarrow>
         script c w = Some \<lparr>final = snd (main_flow c w), uncaught = Some e\<rparr>)
   \<and> (warmup_result w = Some KeyboardInterrupt \<longrightarrow> fst (main_flow c w) = Some KeyboardInterrupt)
   \<and> (\<forall>i. warmup_result w = None \<and> i < length (MODELS_TO_PULL c)
          \<and> run_result w i = Inl KeyboardInterrupt \<and> (\<forall>j<i. \<exists>rc. run_result w j = Inr rc)
        \<longrightarrow> fst (main_flow c w) = Some KeyboardInterrupt)
   \<and> (\<forall>r. script c w = Some r \<and> kills (trace (final r)) \<noteq> [] \<longrightarrow>
         fst (main_flow c w) = None
         \<and> (\<exists>k. idle_sleep w k = Some KeyboardInterrupt \<and> (\<forall>j<k. idle_sleep w j = None)))"
proof (intro conjI allI impI)
  show "kills (trace (snd (main_flow c w))) = []"
    by (rule main_flow_kills)
next
  fix e assume "fst (main_flow c w) = Some e"
  then show "script c w = Some \<lparr>final = snd (main_flow c w), uncaught = Some e\<rparr>"
    by (simp add: script_cases)
next
  assume "warmup_result w = Some KeyboardInterrupt"
  then show "fst (main_flow c w) = Some KeyboardInterrupt"
    by (simp add: main_flow_exception)
next
  fix i
  assume a: "warmup_result w = None \<and> i < length (MODELS_TO_PULL c)
          \<and> run_result w i = Inl KeyboardInterrupt \<and> (\<forall>j<i. \<exists>rc. run_result w j = Inr rc)"
  let ?env = "AList.update ''OLLAMA_HOST'' ''0.0.0.0''
                (AList.update ''OLLAMA_ORIGINS'' ''*'' (environ w))"
  have "snd (pull_models w ?env 0 (MODELS_TO_PULL c)) = Some KeyboardInterrupt"
    using a by (intro pull_models_raises [of i]) simp_all
  with a show "fst (main_flow c w) = Some KeyboardInterrupt"
    by (simp add: main_flow_exception)
next
  fix r assume a: "script c w = Some r \<and> kills (trace (final r)) \<noteq> []"
  show reached: "fst (main_flow c w) = None"
  proof (cases "fst (main_flow c w)")
    case None
    then show ?thesis .
  next
    case (Some e)
    with a have "r = \<lparr>final = snd (main_flow c w), uncaught = Some e\<rparr>"
      by (simp add: script_cases)
    with a show ?thesis by (simp add: main_flow_kills)
  qed
  with a have "idle_wait w (snd (main_flow c w)) = Some r"
    by (simp add: script_cases)
  from idle_wait_returns [OF this] obtain k e
    where k: "idle_sleep w k = Some e" "\<forall>j<k. idle_sleep w j = None"
      and tr: "trace (final r) = trace (snd (main_flow c w)) @ replicate k (Sleep 1 None)
          @ [Sleep 1 (Some e)] @ (if isinstance_KeyboardInterrupt e then [Kill (kill_result w)] else [])"
    by (elim exE conjE)
  have "isinstance_KeyboardInterrupt e"
  proof (rule ccontr)
    assume "\<not> isinstance_KeyboardInterrupt e"
    with tr have "kills (trace (final r)) = []"
      by (simp add: kills_append main_flow_kills kills_idle_sleeps)
    with a show False by simp
  qed
  then have "e = KeyboardInterrupt"
    by (cases e) simp_all
  with k have "idle_sleep w k = Some KeyboardInterrupt \<and> (\<forall>j<k. idle_sleep w j = None)"
    by simp
  then show "\<exists>k. idle_sleep w k = Some KeyboardInterrupt \<and> (\<forall>j<k. idle_sleep w j = None)"
    by (intro exI)
qed

theorem teardown_only_from_idle_interrupt_witness:
  "warmup_result world_warmup_interrupt = Some KeyboardInterrupt
   \<and> script cfg_ab world_warmup_interrupt
       = Some \<lparr>final = snd (main_flow cfg_ab world_warmup_interrupt),
               uncaught = Some KeyboardInterrupt\<rparr>
   \<and> kills (trace (snd (main_flow cfg_ab world_warmup_interrupt))) = []
   \<and> run_result world_pull_interrupt 0 = Inr 1
   \<and> run_result world_pull_interrupt 1 = Inl KeyboardInterrupt
   \<and> script cfg_ab world_pull_interrupt
       = Some \<lparr>final = snd (main_flow cfg_ab world_pull_interrupt),
               uncaught = Some KeyboardInterrupt\<rparr>
   \<and> kills (trace (snd (main_flow cfg_ab world_pull_interrupt))) = []
   \<and> (\<exists>r. script cfg_ab world_ok = Some r \<and> kills (trace (final r)) = [None])
   \<and> fst (main_flow cfg_ab world_ok) = None
   \<and> (\<exists>k. idle_sleep world_ok k = Some KeyboardInterrupt)"
proof -
  note T1 = teardown_only_from_idle_interrupt [of cfg_ab world_warmup_interrupt]
  note T2 = teardown_only_from_idle_interrupt [of cfg_ab world_pull_interrupt]
  note T3 = teardown_only_from_idle_interrupt [of cfg_ab world_ok]
  have w1: "warmup_result world_warmup_interrupt = Some KeyboardInterrupt"
    by (simp add: world_warmup_interrupt_def)
  have f1: "fst (main_flow cfg_ab world_warmup_interrupt) = Some KeyboardInterrupt"
    by (rule T1 [THEN conjunct2, THEN conjunct2, THEN conjunct1, THEN mp, OF w1])
  have s1: "script cfg_ab world_warmup_interrupt
       = Some \<lparr>final = snd (main_flow cfg_ab world_warmup_interrupt),
               uncaught = Some KeyboardInterrupt\<rparr>"
    by (rule T1 [THEN conjunct2, THEN conjunct1, THEN spec, THEN mp, OF f1])
  have k1: "kills (trace (snd (main_flow cfg_ab world_warmup_interrupt))) = []"
    by (rule T1 [THEN conjunct1])
  have r0: "run_result world_pull_interrupt 0 = Inr 1"
    and r1: "run_result world_pull_interrupt 1 = Inl KeyboardInterrupt"
    by (simp_all add: world_pull_interrupt_def)
  have h2: "warmup_result world_pull_interrupt = None \<and> 1 < length (MODELS_TO_PULL cfg_ab)
      \<and> run_result world_pull_interrupt 1 = Inl KeyboardInterrupt
      \<and> (\<forall>j<1. \<exists>rc. run_result world_pull_interrupt j = Inr rc)"
    by (simp add: world_pull_interrupt_def world_ok_def cfg_ab_def)
  have f2: "fst (main_flow cfg_ab world_pull_interrupt) = Some KeyboardInterrupt"
    by (rule T2 [THEN conjunct2, THEN conjunct2, THEN conjunct2, THEN conjunct1,
          THEN spec, THEN mp, OF h2])
  have s2: "script cfg_ab world_pull_interrupt
       = Some \<lparr>final = snd (main_flow cfg_ab world_pull_interrupt),
               uncaught = Some KeyboardInterrupt\<rparr>"
    by (rule T2 [THEN conjunct2, THEN conjunct1, THEN spec, THEN mp, OF f2])
  have k2: "kills (trace (snd (main_flow cfg_ab world_pull_interrupt))) = []"
    by (rule T2 [THEN conjunct1])
  from sample_run_script obtain r
    where r: "script cfg_ab world_ok = Some r" "kills (trace (final r)) = [None]"
    by (elim exE conjE)
  then have h3: "script cfg_ab world_ok = Some r \<and> kills (trace (final r)) \<noteq> []"
    by simp
  note c3 = T3 [THEN conjunct2, THEN conjunct2, THEN conjunct2, THEN conjunct2,
          THEN spec, THEN mp, OF h3]
  have f3: "fst (main_flow cfg_ab world_ok) = None"
    by (rule c3 [THEN conjunct1])
  from c3 [THEN conjunct2] obtain k where "idle_sleep world_ok k = Some KeyboardInterrupt"
    by (elim exE conjE)
  then have i3: "\<exists>k. idle_sleep world_ok k = Some KeyboardInterrupt"
    by (intro exI)
  show ?thesis
    using w1 s1 k1 r0 r1 s2 k2 sample_run_script f3 i3 by (intro conjI)
qed

subsection \<open>The tunnel\<close>

text \<open>
  C2, as the code has it. The handler around \<open>ngrok.connect\<close> is \<open>except Exception\<close>.
  When the call raises an instance of \<open>Exception\<close>, the script prints \<open>Hata:\<close> followed by
  the text of the exception, raises nothing, and goes on into the idle wait with that
  print as its last action so far.
\<close>

theorem tunnel_error_contained:
  assumes "Connect p (Inl e) \<in> set (trace (snd (main_flow c w)))"
    and "isinstance_Exception e"
  shows "fst (main_flow c w) = None
       \<and> (\<exists>xs. trace (snd (main_flow c w))
              = xs @ [Connect 11434 (Inl e), Print (''Hata: '' @ str_exc e)])
       \<and> script c w = idle_wait w (snd (main_flow c w))"
proof -
  let ?env = "AList.update ''OLLAMA_HOST'' ''0.0.0.0''
                (AList.update ''OLLAMA_ORIGINS'' ''*'' (environ w))"
  from main_flow_connect_reached [OF assms(1)]
  have warm: "warmup_result w = None"
    and pulls: "snd (pull_models w ?env 0 (MODELS_TO_PULL c)) = None"
    and conn: "connect_result w = Inl e"
    by simp_all
  have tunnel: "open_tunnel c w = ([Connect 11434 (Inl e), Print (''Hata: '' @ str_exc e)], None)"
    using conn assms(2) by (simp add: open_tunnel_def msg_error_def)
  have reached: "fst (main_flow c w) = None"
    using warm pulls tunnel by (simp add: main_flow_exception)
  let ?xs = "[SetAuthToken (NGROK_AUTH_TOKEN c), ThreadStart, Sleep 10 (warmup_result w),
          Print (msg_total (length (MODELS_TO_PULL c)))]
         @ fst (pull_models w ?env 0 (MODELS_TO_PULL c))"
  have eq: "trace (snd (main_flow c w))
      = ?xs @ [Connect 11434 (Inl e), Print (''Hata: '' @ str_exc e)]"
    using warm pulls tunnel by (simp add: main_flow_trace)
  have "\<exists>xs. trace (snd (main_flow c w))
              = xs @ [Connect 11434 (Inl e), Print (''Hata: '' @ str_exc e)]"
    by (rule exI [of _ ?xs]) (rule eq)
  moreover have "script c w = idle_wait w (snd (main_flow c w))"
    using reached by (simp add: script_cases)
  ultimately show ?thesis using reached by (intro conjI)
qed

theorem tunnel_error_contained_witness:
  "Connect 11434 (Inl (Exception ''auth failed''))
      \<in> set (trace (snd (main_flow cfg_ab world_tunnel_error)))
   \<and> isinstance_Exception (Exception ''auth failed'')
   \<and> fst (main_flow cfg_ab world_tunnel_error) = None
   \<and> last (trace (snd (main_flow cfg_ab world_tunnel_error))) = Print ''Hata: auth failed''
   \<and> script cfg_ab world_tunnel_error
       = idle_wait world_tunnel_error (snd (main_flow cfg_ab world_tunnel_error))"
proof -
  have h1: "Connect 11434 (Inl (Exception ''auth failed''))
      \<in> set (trace (snd (main_flow cfg_ab world_tunnel_error)))"
    by (simp add: world_tunnel_error_def tunnel_error_run_trace open_tunnel_def)
  have h2: "isinstance_Exception (Exception ''auth failed'')"
    by simp
  note r = tunnel_error_contained [OF h1 h2]
  from r [THEN conjunct2, THEN conjunct1] obtain xs
    where "trace (snd (main_flow cfg_ab world_tunnel_error))
       = xs @ [Connect 11434 (Inl (Exception ''auth failed'')),
               Print (''Hata: '' @ str_exc (Exception ''auth failed''))]"
    by (elim exE)
  then have l: "last (trace (snd (main_flow cfg_ab world_tunnel_error))) = Print ''Hata: auth failed''"
    by simp
  show ?thesis
    using h1 h2 r [THEN conjunct1] l r [THEN conjunct2, THEN conjunct2] by (intro conjI)
qed

text \<open>
  C2, as stated, fails for an exception that is not an instance of \<open>Exception\<close>: when
  \<open>ngrok.connect\<close> raises \<open>KeyboardInterrupt\<close>, nothing is printed after the call, the
  exception leaves the script, and the idle loop is never entered.
\<close>

theorem tunnel_interrupt_escapes_counterexample:
  "connect_result world_tunnel_interrupt = Inl KeyboardInterrupt
   \<and> last (trace (snd (main_flow cfg_ab world_tunnel_interrupt)))
       = Connect 11434 (Inl KeyboardInterrupt)
   \<and> fst (main_flow cfg_ab world_tunnel_interrupt) = Some KeyboardInterrupt
   \<and> script cfg_ab world_tunnel_interrupt
       = Some \<lparr>final = snd (main_flow cfg_ab world_tunnel_interrupt),
               uncaught = Some KeyboardInterrupt\<rparr>"
proof -
  have c: "connect_result world_tunnel_interrupt = Inl KeyboardInterrupt"
    by (simp add: world_tunnel_interrupt_def)
  have l: "last (trace (snd (main_flow cfg_ab world_tunnel_interrupt)))
       = Connect 11434 (Inl KeyboardInterrupt)"
    by (simp add: world_tunnel_interrupt_def tunnel_error_run_trace open_tunnel_def)
  have f: "fst (main_flow cfg_ab world_tunnel_interrupt) = Some KeyboardInterrupt"
    by (simp add: main_flow_exception world_tunnel_interrupt_def world_ok_def cfg_ab_def
        open_tunnel_def)
  then have "script cfg_ab world_tunnel_interrupt
       = Some \<lparr>final = snd (main_flow cfg_ab world_tunnel_interrupt),
               uncaught = Some KeyboardInterrupt\<rparr>"
    by (simp add: script_cases)
  with c l f show ?thesis by (intro conjI)
qed

text \<open>
  C5. \<open>ngrok.connect\<close> is called at most once, with the port 11434, and only after the
  download loop has gone through the whole list: all the \<open>ollama pull\<close> commands, one per
  model and in order, come before the call and none after it. The public endpoint is the
  one the provider answers this very call with: when the call returns a URL, the five
  prints of the success banner follow, the third of them the line that carries that URL
  between the two pointing hands, given here byte by byte. That line is printed nowhere
  before the call and exactly once in the whole run.
\<close>

theorem tunnel_opened_after_all_pulls:
  assumes "Connect p r \<in> set (trace (snd (main_flow c w)))"
  shows "p = 11434 \<and> r = connect_result w
       \<and> (\<exists>xs ys. trace (snd (main_flow c w)) = xs @ Connect p r # ys
             \<and> run_cmds xs = map (\<lambda>model. [''ollama'', ''pull'', model]) (MODELS_TO_PULL c)
             \<and> run_cmds ys = []
             \<and> connects xs = [] \<and> connects ys = []
             \<and> (\<forall>url. r = Inr url \<longrightarrow>
                   ys = [Print msg_banner, Print msg_header,
                         Print ([CHR 0x0A, CHR 0xF0, CHR 0x9F, CHR 0x91, CHR 0x89] @ '' '' @ url
                                @ '' '' @ [CHR 0xF0, CHR 0x9F, CHR 0x91, CHR 0x88, CHR 0x0A]),
                         Print (msg_models (MODELS_TO_PULL c)), Print msg_bar]
                   \<and> Print ([CHR 0x0A, CHR 0xF0, CHR 0x9F, CHR 0x91, CHR 0x89] @ '' '' @ url
                                @ '' '' @ [CHR 0xF0, CHR 0x9F, CHR 0x91, CHR 0x88, CHR 0x0A]) \<notin> set xs
                   \<and> count_list (trace (snd (main_flow c w)))
                        (Print ([CHR 0x0A, CHR 0xF0, CHR 0x9F, CHR 0x91, CHR 0x89] @ '' '' @ url
                                @ '' '' @ [CHR 0xF0, CHR 0x9F, CHR 0x91, CHR 0x88, CHR 0x0A])) = 1))"
proof -
  let ?env = "AList.update ''OLLAMA_HOST'' ''0.0.0.0''
                (AList.update ''OLLAMA_ORIGINS'' ''*'' (environ w))"
  let ?A = "[SetAuthToken (NGROK_AUTH_TOKEN c), ThreadStart, Sleep 10 (warmup_result w),
             Print (msg_total (length (MODELS_TO_PULL c)))]"
  let ?B = "fst (pull_models w ?env 0 (MODELS_TO_PULL c))"
  let ?ys = "tl (fst (open_tunnel c w))"
  note reached = main_flow_connect_reached [OF assms]
  have warm: "warmup_result w = None"
    by (rule reached [THEN conjunct1])
  have pulls: "snd (pull_models w ?env 0 (MODELS_TO_PULL c)) = None"
    by (rule reached [THEN conjunct2, THEN conjunct1])
  have p: "p = 11434"
    by (rule reached [THEN conjunct2, THEN conjunct2, THEN conjunct1])
  have r: "r = connect_result w"
    by (rule reached [THEN conjunct2, THEN conjunct2, THEN conjunct2])
  have "trace (snd (main_flow c w)) = (?A @ ?B) @ fst (open_tunnel c w)"
    using warm pulls by (simp add: main_flow_trace)
  then have tr: "trace (snd (main_flow c w)) = (?A @ ?B) @ Connect p r # ?ys"
    unfolding p r by (subst (asm) open_tunnel_head(1))
  have runs: "run_cmds (?A @ ?B) = map pull_cmd (MODELS_TO_PULL c)"
    using pull_models_completed [OF pulls] by (simp add: run_cmds_append)
  have conns: "connects (?A @ ?B) = []"
    by (simp add: connects_append pull_models_connects)
  have url: "\<forall>url. r = Inr url \<longrightarrow>
                   ?ys = [Print msg_banner, Print msg_header, Print (msg_url url),
                         Print (msg_models (MODELS_TO_PULL c)), Print msg_bar]
                   \<and> Print (msg_url url) \<notin> set (?A @ ?B)
                   \<and> count_list (trace (snd (main_flow c w))) (Print (msg_url url)) = 1"
  proof (intro allI impI)
    fix url assume ok: "r = Inr url"
    have ys: "?ys = [Print msg_banner, Print msg_header, Print (msg_url url),
                         Print (msg_models (MODELS_TO_PULL c)), Print msg_bar]"
      using ok r by (simp add: open_tunnel_def)
    have total: "msg_total (length (MODELS_TO_PULL c)) \<noteq> msg_url url"
      by (rule msg_url_distinct(1) [THEN not_sym])
    have fresh: "Print (msg_url url) \<notin> set (?A @ ?B)"
      using total pull_models_no_url [of url w ?env 0 "MODELS_TO_PULL c"] by simp
    then have before: "count_list (?A @ ?B) (Print (msg_url url)) = 0"
      by (rule count_notin)
    have after: "count_list (Connect p r # ?ys) (Print (msg_url url)) = 1"
      unfolding ys by (simp add: msg_url_other)
    have "count_list (trace (snd (main_flow c w))) (Print (msg_url url))
        = count_list (?A @ ?B) (Print (msg_url url))
          + count_list (Connect p r # ?ys) (Print (msg_url url))"
      unfolding tr by (rule count_list_append)
    then have "count_list (trace (snd (main_flow c w))) (Print (msg_url url)) = 1"
      unfolding before after by simp
    with ys fresh show "?ys = [Print msg_banner, Print msg_header, Print (msg_url url),
                         Print (msg_models (MODELS_TO_PULL c)), Print msg_bar]
                   \<and> Print (msg_url url) \<notin> set (?A @ ?B)
                   \<and> count_list (trace (snd (main_flow c w))) (Print (msg_url url)) = 1"
      by (intro conjI)
  qed
  have body: "trace (snd (main_flow c w)) = (?A @ ?B) @ Connect p r # ?ys
             \<and> run_cmds (?A @ ?B) = map pull_cmd (MODELS_TO_PULL c)
             \<and> run_cmds ?ys = []
             \<and> connects (?A @ ?B) = [] \<and> connects ?ys = []
             \<and> (\<forall>url. r = Inr url \<longrightarrow>
                   ?ys = [Print msg_banner, Print msg_header, Print (msg_url url),
                         Print (msg_models (MODELS_TO_PULL c)), Print msg_bar]
                   \<and> Print (msg_url url) \<notin> set (?A @ ?B)
                   \<and> count_list (trace (snd (main_flow c w))) (Print (msg_url url)) = 1)"
    using tr runs open_tunnel_head(3) [of c w] conns open_tunnel_head(2) [of c w] url
    by (intro conjI)
  have pc: "pull_cmd = (\<lambda>model. [''ollama'', ''pull'', model])"
    by (rule ext) (simp add: pull_cmd_def)
  note spelled = body [unfolded msg_url_def pc]
  have "\<exists>xs ys. trace (snd (main_flow c w)) = xs @ Connect p r # ys
             \<and> run_cmds xs = map (\<lambda>model. [''ollama'', ''pull'', model]) (MODELS_TO_PULL c)
             \<and> run_cmds ys = []
             \<and> connects xs = [] \<and> connects ys = []
             \<and> (\<forall>url. r = Inr url \<longrightarrow>
                   ys = [Print msg_banner, Print msg_header,
                         Print ([CHR 0x0A, CHR 0xF0, CHR 0x9F, CHR 0x91, CHR 0x89] @ '' '' @ url
                                @ '' '' @ [CHR 0xF0, CHR 0x9F, CHR 0x91, CHR 0x88, CHR 0x0A]),
                         Print (msg_models (MODELS_TO_PULL c)), Print msg_bar]
                   \<and> Print ([CHR 0x0A, CHR 0xF0, CHR 0x9F, CHR 0x91, CHR 0x89] @ '' '' @ url
                                @ '' '' @ [CHR 0xF0, CHR 0x9F, CHR 0x91, CHR 0x88, CHR 0x0A]) \<notin> set xs
                   \<and> count_list (trace (snd (main_flow c w)))
                        (Print ([CHR 0x0A, CHR 0xF0, CHR 0x9F, CHR 0x91, CHR 0x89] @ '' '' @ url
                                @ '' '' @ [CHR 0xF0, CHR 0x9F, CHR 0x91, CHR 0x88, CHR 0x0A])) = 1)"
    by (rule exI [of _ "?A @ ?B"], rule exI [of _ ?ys]) (rule spelled)
  with p r show ?thesis by (intro conjI)
qed

theorem tunnel_opened_after_all_pulls_witness:
  "Connect 11434 (Inr ''https://x.ngrok.app'') \<in> set (trace (snd (main_flow cfg_ab world_ok)))
   \<and> connect_result world_ok = Inr ''https://x.ngrok.app''
   \<and> (\<exists>xs ys. trace (snd (main_flow cfg_ab world_ok))
          = xs @ Connect 11434 (Inr ''https://x.ngrok.app'') # ys
        \<and> run_cmds xs = [[''ollama'', ''pull'', ''a''], [''ollama'', ''pull'', ''b'']]
        \<and> run_cmds ys = []
        \<and> ys ! 2 = Print ([CHR 0x0A, CHR 0xF0, CHR 0x9F, CHR 0x91, CHR 0x89]
                     @ '' https://x.ngrok.app '' @ [CHR 0xF0, CHR 0x9F, CHR 0x91, CHR 0x88, CHR 0x0A]))
   \<and> count_list (trace (snd (main_flow cfg_ab world_ok)))
        (Print ([CHR 0x0A, CHR 0xF0, CHR 0x9F, CHR 0x91, CHR 0x89]
                     @ '' https://x.ngrok.app '' @ [CHR 0xF0, CHR 0x9F, CHR 0x91, CHR 0x88, CHR 0x0A])) = 1"
proof -
  have h: "Connect 11434 (Inr ''https://x.ngrok.app'')
      \<in> set (trace (snd (main_flow cfg_ab world_ok)))"
    by (simp add: sample_run_trace)
  note r = tunnel_opened_after_all_pulls [OF h]
  have c: "connect_result world_ok = Inr ''https://x.ngrok.app''"
    by (rule r [THEN conjunct2, THEN conjunct1, symmetric])
  from r [THEN conjunct2, THEN conjunct2] obtain xs ys
    where tr: "trace (snd (main_flow cfg_ab world_ok))
          = xs @ Connect 11434 (Inr ''https://x.ngrok.app'') # ys"
      and runs: "run_cmds xs = map (\<lambda>model. [''ollama'', ''pull'', model]) (MODELS_TO_PULL cfg_ab)"
        "run_cmds ys = []"
      and url: "\<forall>url. Inr ''https://x.ngrok.app'' = (Inr url :: py_exc + string) \<longrightarrow>
                   ys = [Print msg_banner, Print msg_header,
                         Print ([CHR 0x0A, CHR 0xF0, CHR 0x9F, CHR 0x91, CHR 0x89] @ '' '' @ url
                                @ '' '' @ [CHR 0xF0, CHR 0x9F, CHR 0x91, CHR 0x88, CHR 0x0A]),
                         Print (msg_models (MODELS_TO_PULL cfg_ab)), Print msg_bar]
                   \<and> Print ([CHR 0x0A, CHR 0xF0, CHR 0x9F, CHR 0x91, CHR 0x89] @ '' '' @ url
                                @ '' '' @ [CHR 0xF0, CHR 0x9F, CHR 0x91, CHR 0x88, CHR 0x0A]) \<notin> set xs
                   \<and> count_list (trace (snd (main_flow cfg_ab world_ok)))
                        (Print ([CHR 0x0A, CHR 0xF0, CHR 0x9F, CHR 0x91, CHR 0x89] @ '' '' @ url
                                @ '' '' @ [CHR 0xF0, CHR 0x9F, CHR 0x91, CHR 0x88, CHR 0x0A])) = 1"
    by (elim exE conjE)
  note u = url [THEN spec, THEN mp, OF refl]
  have n: "count_list (trace (snd (main_flow cfg_ab world_ok)))
        (Print ([CHR 0x0A, CHR 0xF0, CHR 0x9F, CHR 0x91, CHR 0x89]
                     @ '' https://x.ngrok.app '' @ [CHR 0xF0, CHR 0x9F, CHR 0x91, CHR 0x88, CHR 0x0A])) = 1"
    using u [THEN conjunct2, THEN conjunct2] by simp
  have line: "ys ! 2 = Print ([CHR 0x0A, CHR 0xF0, CHR 0x9F, CHR 0x91, CHR 0x89]
                     @ '' https://x.ngrok.app '' @ [CHR 0xF0, CHR 0x9F, CHR 0x91, CHR 0x88, CHR 0x0A])"
    using u [THEN conjunct1] by simp
  have "run_cmds xs = [[''ollama'', ''pull'', ''a''], [''ollama'', ''pull'', ''b'']]"
    using runs(1) by (simp add: cfg_ab_def)
  with tr runs(2) line
  have "trace (snd (main_flow cfg_ab world_ok))
          = xs @ Connect 11434 (Inr ''https://x.ngrok.app'') # ys
        \<and> run_cmds xs = [[''ollama'', ''pull'', ''a''], [''ollama'', ''pull'', ''b'']]
        \<and> run_cmds ys = []
        \<and> ys ! 2 = Print ([CHR 0x0A, CHR 0xF0, CHR 0x9F, CHR 0x91, CHR 0x89]
                     @ '' https://x.ngrok.app '' @ [CHR 0xF0, CHR 0x9F, CHR 0x91, CHR 0x88, CHR 0x0A])"
    by (intro conjI)
  then have "\<exists>xs ys. trace (snd (main_flow cfg_ab world_ok))
          = xs @ Connect 11434 (Inr ''https://x.ngrok.app'') # ys
        \<and> run_cmds xs = [[''ollama'', ''pull'', ''a''], [''ollama'', ''pull'', ''b'']]
        \<and> run_cmds ys = []
        \<and> ys ! 2 = Print ([CHR 0x0A, CHR 0xF0, CHR 0x9F, CHR 0x91, CHR 0x89]
                     @ '' https://x.ngrok.app '' @ [CHR 0xF0, CHR 0x9F, CHR 0x91, CHR 0x88, CHR 0x0A])"
    by (intro exI)
  with h c n show ?thesis by (intro conjI)
qed

end
